theory Spec2Isabelle
  imports
    Main
    "HOL-Library.Char_ord"
    "HOL-Library.List_Lexorder"
    "HOL-Library.Product_Lexorder"
begin

section \<open>Strings\<close>

text \<open>
  The string operations of the host language that \<^verbatim>\<open>packages.ts\<close> uses.
  A string is a list of characters; the three operations below only ever look for the
  ASCII characters \<^verbatim>\<open>@\<close> and \<^verbatim>\<open>/\<close>, so they act the same on code units and on bytes.

  \<^item> \<^verbatim>\<open>s.startsWith(p)\<close>
  \<^item> \<^verbatim>\<open>s.replace(c, r)\<close> with a string pattern: only the first occurrence is replaced
  \<^item> \<^verbatim>\<open>s.slice(1)\<close>
\<close>

definition startsWith :: "string \<Rightarrow> string \<Rightarrow> bool" where
  "startsWith s p = (take (length p) s = p)"

fun String_replace :: "string \<Rightarrow> char \<Rightarrow> string \<Rightarrow> string" where
  "String_replace [] c r = []"
| "String_replace (x # xs) c r = (if x = c then r @ xs else x # String_replace xs c r)"

definition slice :: "nat \<Rightarrow> string \<Rightarrow> string" where
  "slice n s = drop n s"

section \<open>Name mangling\<close>

text \<open>
  \<^verbatim>\<open>
  export function getMangledNameForScopedPackage(packageName: string): string {
    if (packageName.startsWith("@")) {
      const replaceSlash = packageName.replace("/", "__");
      if (replaceSlash !== packageName) {
        return replaceSlash.slice(1); // Take off the "@"
      }
    }
    return packageName;
  }
  \<close>
\<close>

definition getMangledNameForScopedPackage :: "string \<Rightarrow> string" where
  "getMangledNameForScopedPackage packageName =
     (if startsWith packageName ''@'' then
        (let replaceSlash = String_replace packageName (CHR ''/'') ''__''
         in if replaceSlash \<noteq> packageName then slice 1 replaceSlash else packageName)
      else packageName)"

section \<open>Versions\<close>

text \<open>
  \<^verbatim>\<open>semver.SemVer\<close> objects, as far as \<^verbatim>\<open>packages.ts\<close> reads them (no prerelease or
  build part occurs: version keys have the type \<^verbatim>\<open>`${number}.${number}`\<close>).
  \<^verbatim>\<open>semver.compare\<close> compares major, then minor, then patch; \<^verbatim>\<open>semver.rcompare(a, b)\<close>
  is \<^verbatim>\<open>compare(b, a)\<close>.
\<close>

record SemVer =
  sv_major :: nat
  sv_minor :: nat
  sv_patch :: nat

definition compareIdentifiers :: "nat \<Rightarrow> nat \<Rightarrow> int" where
  "compareIdentifiers a b = (if a = b then 0 else if a < b then - 1 else 1)"

definition semver_compare :: "SemVer \<Rightarrow> SemVer \<Rightarrow> int" where
  "semver_compare a b =
     (if compareIdentifiers (sv_major a) (sv_major b) \<noteq> 0
        then compareIdentifiers (sv_major a) (sv_major b)
      else if compareIdentifiers (sv_minor a) (sv_minor b) \<noteq> 0
        then compareIdentifiers (sv_minor a) (sv_minor b)
      else compareIdentifiers (sv_patch a) (sv_patch b))"

definition semver_rcompare :: "SemVer \<Rightarrow> SemVer \<Rightarrow> int" where
  "semver_rcompare a b = semver_compare b a"

text \<open>
  \<^verbatim>\<open>Array.prototype.sort(compare)\<close>: a stable sort; an element goes before the first
  element it does not compare greater than.
\<close>

fun Array_insert :: "('a \<Rightarrow> 'a \<Rightarrow> int) \<Rightarrow> 'a \<Rightarrow> 'a list \<Rightarrow> 'a list" where
  "Array_insert cmp x [] = [x]"
| "Array_insert cmp x (y # ys) =
     (if cmp x y \<le> 0 then x # y # ys else y # Array_insert cmp x ys)"

definition Array_sort :: "('a \<Rightarrow> 'a \<Rightarrow> int) \<Rightarrow> 'a list \<Rightarrow> 'a list" where
  "Array_sort cmp xs = foldr (Array_insert cmp) xs []"

text \<open>
  \<^verbatim>\<open>DirectoryParsedTypingVersion\<close> (minor may be unknown), \<^verbatim>\<open>HeaderParsedTypingVersion\<close>,
  and \<^verbatim>\<open>DependencyVersion = DirectoryParsedTypingVersion | "*"\<close>.
\<close>

record DirectoryParsedTypingVersion =
  dv_major :: nat
  dv_minor :: "nat option"

record HeaderParsedTypingVersion =
  hv_major :: nat
  hv_minor :: nat

datatype DependencyVersion = Star | Dir DirectoryParsedTypingVersion

record PackageId =
  pid_name :: string
  pid_version :: DependencyVersion

record PackageIdWithDefiniteVersion =
  pidv_name :: string
  pidv_version :: HeaderParsedTypingVersion

text \<open>
  A \<^verbatim>\<open>PackageIdWithDefiniteVersion\<close> is a \<^verbatim>\<open>PackageId\<close> by structural subtyping
  (\<^verbatim>\<open>tryResolve\<close> returns one as a \<^verbatim>\<open>PackageId\<close>).
\<close>

definition asPackageId :: "PackageIdWithDefiniteVersion \<Rightarrow> PackageId" where
  "asPackageId i =
     \<lparr>pid_name = pidv_name i,
      pid_version = Dir \<lparr>dv_major = hv_major (pidv_version i),
                         dv_minor = Some (hv_minor (pidv_version i))\<rparr>\<rparr>"

section \<open>Errors\<close>

text \<open>
  Every \<^verbatim>\<open>throw\<close> and failed \<^verbatim>\<open>assert\<close> of the modelled code is a value of \<open>error\<close>; the
  constructors carry what the message is built from. \<open>TypeError\<close> is the runtime's
  error for reading a property of \<^verbatim>\<open>undefined\<close>. \<open>PathMappingReference pkg name\<close> stands
  for the message \<^verbatim>\<open>`${pkg.name} references this version of ${name} in its path mappings ...`\<close>.
  \<open>CouldNotFindVersionUndefined\<close> is the error of \<^verbatim>\<open>getLatestMatch\<close> for a requested version
  that has neither \<^verbatim>\<open>major\<close> nor \<^verbatim>\<open>minor\<close> (message \<^verbatim>\<open>Could not find version undefined.*.\<close>).
\<close>

datatype errorMessage = PathMappingReference string string

datatype error =
    TypeError
  | NoTypingsFound string
  | CouldNotFindVersion nat "nat option" "errorMessage option"
  | CouldNotFindVersionUndefined "errorMessage option"
  | NameNotLowerCase string
  | UnexpectedKey string
  | LibraryNameNotLowerCase string
  | AssertionError
  | InvalidVersion string

section \<open>Package records\<close>

record TypingsDataRaw =
  libraryName :: string
  typingsPackageName :: string
  dependencies :: "(string \<times> DependencyVersion) list"
  testDependencies :: "string list"
  pathMappings :: "(string \<times> DirectoryParsedTypingVersion) list"
  libraryMajorVersion :: nat
  libraryMinorVersion :: nat

text \<open>
  \<^verbatim>\<open>class TypingsData extends PackageBase\<close>: the raw data and the \<^verbatim>\<open>isLatest\<close> flag.
  \<^verbatim>\<open>dependencies\<close> and \<^verbatim>\<open>pathMappings\<close> are objects used as dictionaries; they are
  association lists in the order \<^verbatim>\<open>Object.entries\<close> gives.
  The constructor reads \<^verbatim>\<open>data.libraryName\<close> (in \<^verbatim>\<open>PackageBase\<close>), which throws when
  \<^verbatim>\<open>data\<close> is \<^verbatim>\<open>undefined\<close>.
\<close>

record TypingsData =
  data :: TypingsDataRaw
  isLatest :: bool

definition TypingsData_new :: "TypingsDataRaw option \<Rightarrow> bool \<Rightarrow> error + TypingsData" where
  "TypingsData_new d latest =
     (case d of None \<Rightarrow> Inl TypeError | Some raw \<Rightarrow> Inr \<lparr>data = raw, isLatest = latest\<rparr>)"

definition TypingsData_name :: "TypingsData \<Rightarrow> string" where
  "TypingsData_name this = typingsPackageName (data this)"

definition TypingsData_major :: "TypingsData \<Rightarrow> nat" where
  "TypingsData_major this = libraryMajorVersion (data this)"

definition TypingsData_minor :: "TypingsData \<Rightarrow> nat" where
  "TypingsData_minor this = libraryMinorVersion (data this)"

text \<open>
  \<^verbatim>\<open>
  get id(): PackageIdWithDefiniteVersion {
    return { name: this.name, version: { major: this.major, minor: this.minor } };
  }
  \<close>
\<close>

definition TypingsData_id :: "TypingsData \<Rightarrow> PackageIdWithDefiniteVersion" where
  "TypingsData_id this =
     \<lparr>pidv_name = TypingsData_name this,
      pidv_version = \<lparr>hv_major = TypingsData_major this, hv_minor = TypingsData_minor this\<rparr>\<rparr>"

section \<open>Version sets\<close>

text \<open>
  \<^verbatim>\<open>TypingsVersionsRaw\<close> maps keys \<^verbatim>\<open>"<major>.<minor>"\<close> to raw records. A key is kept
  as the pair of numbers it denotes; \<^verbatim>\<open>new semver.SemVer(`${key}.0`)\<close> is \<open>keyVersion\<close>
  and \<^verbatim>\<open>data[`${version.major}.${version.minor}`]\<close> is a lookup of the pair. The list is
  in \<^verbatim>\<open>Object.keys\<close> order.

  \<^verbatim>\<open>
  constructor(data: TypingsVersionsRaw) {
    this.versions = Object.keys(data).map((key) => new semver.SemVer(`${key}.0`));
    this.versions.sort(semver.rcompare);
    this.map = new Map(
      this.versions.map((version, i) =>
        [version, new TypingsData(data[`${version.major}.${version.minor}`], !i)])
    );
  }
  \<close>
  \<open>tv_map\<close> is the \<^verbatim>\<open>Map\<close> in insertion order, \<open>tv_versions\<close> the field \<^verbatim>\<open>versions\<close>.
\<close>

type_synonym TypingsVersionsRaw = "((nat \<times> nat) \<times> TypingsDataRaw) list"

record TypingsVersions =
  tv_map :: "(SemVer \<times> TypingsData) list"
  tv_versions :: "SemVer list"

definition keyVersion :: "nat \<times> nat \<Rightarrow> SemVer" where
  "keyVersion key = \<lparr>sv_major = fst key, sv_minor = snd key, sv_patch = 0\<rparr>"

fun mapEntries ::
  "TypingsVersionsRaw \<Rightarrow> SemVer list \<Rightarrow> nat \<Rightarrow> error + (SemVer \<times> TypingsData) list" where
  "mapEntries d [] i = Inr []"
| "mapEntries d (version # rest) i =
     (case TypingsData_new (map_of d (sv_major version, sv_minor version)) (i = 0) of
        Inl e \<Rightarrow> Inl e
      | Inr t \<Rightarrow>
          (case mapEntries d rest (Suc i) of
             Inl e \<Rightarrow> Inl e
           | Inr es \<Rightarrow> Inr ((version, t) # es)))"

definition TypingsVersions_new :: "TypingsVersionsRaw \<Rightarrow> error + TypingsVersions" where
  "TypingsVersions_new d =
     (let vs = Array_sort semver_rcompare (map (\<lambda>key. keyVersion key) (map fst d))
      in case mapEntries d vs 0 of
           Inl e \<Rightarrow> Inl e
         | Inr es \<Rightarrow> Inr \<lparr>tv_map = es, tv_versions = vs\<rparr>)"

definition getAll :: "TypingsVersions \<Rightarrow> TypingsData list" where
  "getAll this = map snd (tv_map this)"

text \<open>
  \<^verbatim>\<open>getLatest() { return this.map.get(this.versions[0])!; }\<close>: the result is
  \<^verbatim>\<open>undefined\<close> (\<open>None\<close>) when there is no version.
\<close>

definition getLatest :: "TypingsVersions \<Rightarrow> TypingsData option" where
  "getLatest this = (case tv_versions this of [] \<Rightarrow> None | v # _ \<Rightarrow> map_of (tv_map this) v)"

text \<open>
  \<^verbatim>\<open>
  private tryGetLatestMatch(version: DirectoryParsedTypingVersion): TypingsData | undefined {
    const found = this.versions.find(
      (v) => v.major === version.major && (version.minor === undefined || v.minor === version.minor)
    );
    return found && this.map.get(found);
  }
  \<close>
\<close>

definition versionMatches :: "DirectoryParsedTypingVersion \<Rightarrow> SemVer \<Rightarrow> bool" where
  "versionMatches version v =
     (sv_major v = dv_major version \<and>
      (dv_minor version = None \<or> Some (sv_minor v) = dv_minor version))"

definition tryGetLatestMatch ::
  "TypingsVersions \<Rightarrow> DirectoryParsedTypingVersion \<Rightarrow> TypingsData option" where
  "tryGetLatestMatch this version =
     (case find (versionMatches version) (tv_versions this) of
        None \<Rightarrow> None
      | Some found \<Rightarrow> map_of (tv_map this) found)"

definition getLatestMatch ::
  "TypingsVersions \<Rightarrow> DirectoryParsedTypingVersion \<Rightarrow> errorMessage option
     \<Rightarrow> error + TypingsData" where
  "getLatestMatch this version errorMessage =
     (case tryGetLatestMatch this version of
        None \<Rightarrow> Inl (CouldNotFindVersion (dv_major version) (dv_minor version) errorMessage)
      | Some d \<Rightarrow> Inr d)"

definition get ::
  "TypingsVersions \<Rightarrow> DependencyVersion \<Rightarrow> errorMessage option
     \<Rightarrow> error + TypingsData option" where
  "get this version errorMessage =
     (case version of
        Star \<Rightarrow> Inr (getLatest this)
      | Dir v \<Rightarrow>
          (case getLatestMatch this v errorMessage of
             Inl e \<Rightarrow> Inl e
           | Inr d \<Rightarrow> Inr (Some d)))"

definition tryGet :: "TypingsVersions \<Rightarrow> DependencyVersion \<Rightarrow> TypingsData option" where
  "tryGet this version =
     (case version of Star \<Rightarrow> getLatest this | Dir v \<Rightarrow> tryGetLatestMatch this v)"

section \<open>Not-needed packages\<close>

text \<open>
  \<^verbatim>\<open>String.prototype.toLowerCase\<close> is a function of the language's runtime, defined on all
  of Unicode; \<^verbatim>\<open>fromRaw\<close> below takes it as the parameter \<open>toLowerCase\<close>, so that what is
  proved of \<^verbatim>\<open>fromRaw\<close> holds for the runtime's function whatever it does on a string.
  \<open>asciiToLowerCase\<close> is that function on strings of ASCII characters only (it maps
  \<^verbatim>\<open>A\<close> to \<^verbatim>\<open>Z\<close> to \<^verbatim>\<open>a\<close> to \<^verbatim>\<open>z\<close>); it serves for concrete instances with ASCII names and
  is no model of the runtime's function on other strings.
\<close>

definition asciiLowerChar :: "char \<Rightarrow> char" where
  "asciiLowerChar c =
     (if CHR ''A'' \<le> c \<and> c \<le> CHR ''Z'' then char_of (of_char c + (32 :: nat)) else c)"

definition asciiToLowerCase :: "string \<Rightarrow> string" where
  "asciiToLowerCase s = map asciiLowerChar s"

record NotNeededPackage =
  nn_name :: string
  nn_libraryName :: string
  nn_version :: SemVer

text \<open>
  The raw record is an object read from JSON: an association list from keys to string
  values, in \<^verbatim>\<open>Object.keys\<close> order. \<^verbatim>\<open>new semver.SemVer(asOfVersion)\<close> belongs to the
  \<^verbatim>\<open>semver\<close> library; its parser is the parameter \<open>parse\<close>, which gives \<open>None\<close> where the
  library throws.

  \<^verbatim>\<open>
  constructor(readonly name: string, readonly libraryName: string, asOfVersion: string) {
    super({ libraryName });
    assert(libraryName && name && asOfVersion);
    this.version = new semver.SemVer(asOfVersion);
  }
  \<close>
\<close>

type_synonym NotNeededPackageRaw = "(string \<times> string) list"

definition NotNeededPackage_new ::
  "(string \<Rightarrow> SemVer option) \<Rightarrow> string \<Rightarrow> string \<Rightarrow> string \<Rightarrow> error + NotNeededPackage" where
  "NotNeededPackage_new parse name libName asOfVersion =
     (if \<not> (libName \<noteq> [] \<and> name \<noteq> [] \<and> asOfVersion \<noteq> []) then Inl AssertionError
      else case parse asOfVersion of
             None \<Rightarrow> Inl (InvalidVersion asOfVersion)
           | Some v \<Rightarrow> Inr \<lparr>nn_name = name, nn_libraryName = libName, nn_version = v\<rparr>)"

text \<open>
  \<^verbatim>\<open>
  static fromRaw(name: string, raw: NotNeededPackageRaw) {
    if (name !== name.toLowerCase()) {
      throw new Error(`not-needed package '${name}' must use all lower-case letters.`);
    }
    for (const key of Object.keys(raw)) {
      if (!["libraryName", "sourceRepoURL", "asOfVersion"].includes(key)) {
        throw new Error(`Unexpected key in not-needed package: ${key}`);
      }
    }
    if (raw.libraryName !== raw.libraryName.toLowerCase()) {
      throw new Error(`not-needed package '${name}' must use a libraryName that is all lower-case letters.`);
    }
    return new NotNeededPackage(name, raw.libraryName, raw.asOfVersion);
  }
  \<close>
  A raw record without \<^verbatim>\<open>libraryName\<close> makes \<^verbatim>\<open>raw.libraryName.toLowerCase()\<close> throw a
  \<open>TypeError\<close>; one without \<^verbatim>\<open>asOfVersion\<close> passes \<^verbatim>\<open>undefined\<close> to the constructor,
  whose assertion fails.
\<close>

definition allowedKeys :: "string list" where
  "allowedKeys = [''libraryName'', ''sourceRepoURL'', ''asOfVersion'']"

definition fromRaw ::
  "(string \<Rightarrow> string) \<Rightarrow> (string \<Rightarrow> SemVer option) \<Rightarrow> string \<Rightarrow> NotNeededPackageRaw
     \<Rightarrow> error + NotNeededPackage" where
  "fromRaw toLowerCase parse name raw =
     (if name \<noteq> toLowerCase name then Inl (NameNotLowerCase name)
      else case find (\<lambda>key. key \<notin> set allowedKeys) (map fst raw) of
             Some key \<Rightarrow> Inl (UnexpectedKey key)
           | None \<Rightarrow>
               (case map_of raw ''libraryName'' of
                  None \<Rightarrow> Inl TypeError
                | Some libName \<Rightarrow>
                    if libName \<noteq> toLowerCase libName then Inl (LibraryNameNotLowerCase name)
                    else (case map_of raw ''asOfVersion'' of
                            None \<Rightarrow> Inl AssertionError
                          | Some asOfVersion \<Rightarrow>
                              NotNeededPackage_new parse name libName asOfVersion)))"

text \<open>
  \<^verbatim>\<open>
  get declaredModules(): readonly string[] { return []; }
  get globals(): readonly string[] { return this.globals; }
  \<close>
  The \<^verbatim>\<open>globals\<close> getter calls itself; a call that does not return has the value \<open>None\<close>.
\<close>

definition NotNeededPackage_declaredModules :: "NotNeededPackage \<Rightarrow> string list option" where
  "NotNeededPackage_declaredModules this = Some []"

partial_function (option) NotNeededPackage_globals :: "NotNeededPackage \<Rightarrow> string list option" where
  "NotNeededPackage_globals this = NotNeededPackage_globals this"

section \<open>The registry\<close>

text \<open>
  \<^verbatim>\<open>class AllPackages\<close>: \<open>ap_data\<close> is the \<^verbatim>\<open>ReadonlyMap<string, TypingsVersions>\<close> in
  insertion order, \<^verbatim>\<open>this.data.get(k)\<close> is \<open>map_of (ap_data this) k\<close>.
  \<^verbatim>\<open>
  static from(data: TypesDataFile, notNeeded: readonly NotNeededPackage[]): AllPackages {
    return new AllPackages(
      mapValues(new Map(Object.entries(data)), (raw) => new TypingsVersions(raw)), notNeeded);
  }
  \<close>
\<close>

record AllPackages =
  ap_data :: "(string \<times> TypingsVersions) list"
  notNeeded :: "NotNeededPackage list"

type_synonym TypesDataFile = "(string \<times> TypingsVersionsRaw) list"

fun mapValues :: "('k \<times> 'a) list \<Rightarrow> ('a \<Rightarrow> error + 'b) \<Rightarrow> error + ('k \<times> 'b) list" where
  "mapValues [] f = Inr []"
| "mapValues ((k, v) # rest) f =
     (case f v of
        Inl e \<Rightarrow> Inl e
      | Inr w \<Rightarrow> (case mapValues rest f of Inl e \<Rightarrow> Inl e | Inr ws \<Rightarrow> Inr ((k, w) # ws)))"

definition AllPackages_from :: "TypesDataFile \<Rightarrow> NotNeededPackage list \<Rightarrow> error + AllPackages" where
  "AllPackages_from d nn =
     (case mapValues d TypingsVersions_new of
        Inl e \<Rightarrow> Inl e
      | Inr m \<Rightarrow> Inr \<lparr>ap_data = m, notNeeded = nn\<rparr>)"

text \<open>
  \<^verbatim>\<open>
  tryResolve(dep: PackageId): PackageId {
    const versions = this.data.get(getMangledNameForScopedPackage(dep.name));
    return (versions && versions.tryGet(dep.version)?.id) || dep;
  }
  \<close>
  An id is an object, hence truthy: \<^verbatim>\<open>|| dep\<close> applies exactly when there is no version
  set or \<^verbatim>\<open>tryGet\<close> gives \<^verbatim>\<open>undefined\<close>.
\<close>

definition tryResolve :: "AllPackages \<Rightarrow> PackageId \<Rightarrow> PackageId" where
  "tryResolve this dep =
     (case map_of (ap_data this) (getMangledNameForScopedPackage (pid_name dep)) of
        None \<Rightarrow> dep
      | Some versions \<Rightarrow>
          (case tryGet versions (pid_version dep) of
             None \<Rightarrow> dep
           | Some t \<Rightarrow> asPackageId (TypingsData_id t)))"

text \<open>
  \<^verbatim>\<open>
  resolve(dep: PackageId): PackageIdWithDefiniteVersion {
    const versions = this.data.get(getMangledNameForScopedPackage(dep.name));
    if (!versions) {
      throw new Error(`No typings found with name '${dep.name}'.`);
    }
    return versions.get(dep.version).id;
  }
  \<close>
  When \<^verbatim>\<open>get\<close> gives \<^verbatim>\<open>undefined\<close> (the latest of an empty version set), reading \<^verbatim>\<open>.id\<close>
  throws a \<open>TypeError\<close>.
\<close>

definition resolve :: "AllPackages \<Rightarrow> PackageId \<Rightarrow> error + PackageIdWithDefiniteVersion" where
  "resolve this dep =
     (case map_of (ap_data this) (getMangledNameForScopedPackage (pid_name dep)) of
        None \<Rightarrow> Inl (NoTypingsFound (pid_name dep))
      | Some versions \<Rightarrow>
          (case get versions (pid_version dep) None of
             Inl e \<Rightarrow> Inl e
           | Inr None \<Rightarrow> Inl TypeError
           | Inr (Some t) \<Rightarrow> Inr (TypingsData_id t)))"

text \<open>
  \<^verbatim>\<open>
  function* flattenData(data: ReadonlyMap<string, TypingsVersions>): Iterable<TypingsData> {
    for (const versions of data.values()) {
      yield* versions.getAll();
    }
  }
  \<close>
  No step of this generator can throw; \<open>flattenData\<close> is the array \<^verbatim>\<open>Array.from\<close> makes of it.
\<close>

fun flattenData :: "(string \<times> TypingsVersions) list \<Rightarrow> TypingsData list" where
  "flattenData [] = []"
| "flattenData ((k, versions) # rest) = getAll versions @ flattenData rest"

text \<open>
  Modelled from the spec: \<^verbatim>\<open>assertSorted\<close> is imported from the package
  \<^verbatim>\<open>@definitelytyped/utils\<close>, whose source is not among the files at hand. The spec says of
  its use in \<^verbatim>\<open>allTypings\<close> that it "asserts the result is sorted by name -- this is a
  structural invariant check, not a sort operation; violation is a fatal
  internal-consistency error". So it returns its argument as it is when the keys are in
  ascending order and fails otherwise. Several versions of one package carry the same
  name, so the order is not strict. Strings are compared character by character.
\<close>

definition assertSorted :: "'a list \<Rightarrow> ('a \<Rightarrow> string) \<Rightarrow> error + 'a list" where
  "assertSorted a cb = (if sorted (map cb a) then Inr a else Inl AssertionError)"

text \<open>
  \<^verbatim>\<open>
  allTypings(): readonly TypingsData[] {
    return assertSorted(Array.from(flattenData(this.data)), (t) => t.name);
  }
  \<close>
\<close>

definition allTypings :: "AllPackages \<Rightarrow> error + TypingsData list" where
  "allTypings this = assertSorted (flattenData (ap_data this)) TypingsData_name"

text \<open>
  A generator function is modelled by what it does when it is run to its end: the values
  it yields, in order, ending either normally or with a thrown error.
\<close>

datatype 'a generated = Done | Yield 'a "'a generated" | Throw error

fun yielded :: "'a generated \<Rightarrow> 'a list" where
  "yielded Done = []"
| "yielded (Yield x g) = x # yielded g"
| "yielded (Throw e) = []"

fun thrown :: "'a generated \<Rightarrow> error option" where
  "thrown Done = None"
| "thrown (Yield x g) = thrown g"
| "thrown (Throw e) = Some e"

text \<open>
  \<^verbatim>\<open>
  *allDependencyTypings(pkg: TypingsData): Iterable<TypingsData> {
    for (const [name, version] of Object.entries(pkg.dependencies)) {
      const versions = this.data.get(getMangledNameForScopedPackage(name));
      if (versions) {
        yield versions.get(version,
          pkg.pathMappings[name] ? `${pkg.name} references this version of ${name} ...` : undefined);
      }
    }
    for (const name of pkg.testDependencies) {
      const versions = this.data.get(getMangledNameForScopedPackage(name));
      if (versions) {
        const version = pkg.pathMappings[name];
        yield version ? versions.get(version) : versions.getLatest();
      }
    }
  }
  \<close>
  A yielded value is \<open>None\<close> where the code yields \<^verbatim>\<open>undefined\<close> (the latest of an empty
  version set). The first loop is \<open>dependencyTypings\<close>, with the rest of the generator as
  its last argument; the second loop is \<open>testDependencyTypings\<close>.

  \<^verbatim>\<open>pkg.pathMappings\<close> is a plain object read from JSON, and \<^verbatim>\<open>pkg.pathMappings[name]\<close> is a
  property read: it gives the object's own property of that name when there is one, and
  otherwise the property that every plain object inherits from \<^verbatim>\<open>Object.prototype\<close> when
  \<open>name\<close> is one of \<open>objectPrototypeKeys\<close>, and \<^verbatim>\<open>undefined\<close> for every other name. An
  inherited value is a function (for \<^verbatim>\<open>__proto__\<close> the prototype object): it is truthy, it
  is not \<^verbatim>\<open>"*"\<close>, and its \<^verbatim>\<open>major\<close> and \<^verbatim>\<open>minor\<close> are \<^verbatim>\<open>undefined\<close>.
\<close>

definition objectPrototypeKeys :: "string list" where
  "objectPrototypeKeys =
     [''constructor'', ''hasOwnProperty'', ''isPrototypeOf'', ''propertyIsEnumerable'',
      ''toLocaleString'', ''toString'', ''valueOf'', ''__proto__'',
      ''__defineGetter__'', ''__defineSetter__'', ''__lookupGetter__'', ''__lookupSetter__'']"

datatype 'a property = Undefined | Own 'a | Inherited

definition getProperty :: "(string \<times> 'a) list \<Rightarrow> string \<Rightarrow> 'a property" where
  "getProperty obj name =
     (case map_of obj name of
        Some v \<Rightarrow> Own v
      | None \<Rightarrow> if name \<in> set objectPrototypeKeys then Inherited else Undefined)"

text \<open>
  \<^verbatim>\<open>versions.get(version)\<close> for an inherited value: \<^verbatim>\<open>version === "*"\<close> is false, so
  \<^verbatim>\<open>getLatestMatch(version)\<close> runs; in \<^verbatim>\<open>tryGetLatestMatch\<close> the test
  \<^verbatim>\<open>v.major === version.major\<close> compares a number with \<^verbatim>\<open>undefined\<close> and is false for every
  stored version.
\<close>

definition tryGetLatestMatch_inherited :: "TypingsVersions \<Rightarrow> TypingsData option" where
  "tryGetLatestMatch_inherited this =
     (case find (\<lambda>v. False) (tv_versions this) of
        None \<Rightarrow> None
      | Some found \<Rightarrow> map_of (tv_map this) found)"

definition get_inherited ::
  "TypingsVersions \<Rightarrow> errorMessage option \<Rightarrow> error + TypingsData option" where
  "get_inherited this errorMessage =
     (case tryGetLatestMatch_inherited this of
        None \<Rightarrow> Inl (CouldNotFindVersionUndefined errorMessage)
      | Some d \<Rightarrow> Inr (Some d))"

definition pathMappingMessage :: "TypingsData \<Rightarrow> string \<Rightarrow> errorMessage option" where
  "pathMappingMessage pkg name =
     (case getProperty (pathMappings (data pkg)) name of
        Undefined \<Rightarrow> None
      | Own _ \<Rightarrow> Some (PathMappingReference (TypingsData_name pkg) name)
      | Inherited \<Rightarrow> Some (PathMappingReference (TypingsData_name pkg) name))"

fun testDependencyTypings ::
  "AllPackages \<Rightarrow> TypingsData \<Rightarrow> string list \<Rightarrow> TypingsData option generated" where
  "testDependencyTypings this pkg [] = Done"
| "testDependencyTypings this pkg (name # rest) =
     (case map_of (ap_data this) (getMangledNameForScopedPackage name) of
        None \<Rightarrow> testDependencyTypings this pkg rest
      | Some versions \<Rightarrow>
          (case getProperty (pathMappings (data pkg)) name of
             Undefined \<Rightarrow> Yield (getLatest versions) (testDependencyTypings this pkg rest)
           | Own version \<Rightarrow>
               (case get versions (Dir version) None of
                  Inl e \<Rightarrow> Throw e
                | Inr t \<Rightarrow> Yield t (testDependencyTypings this pkg rest))
           | Inherited \<Rightarrow>
               (case get_inherited versions None of
                  Inl e \<Rightarrow> Throw e
                | Inr t \<Rightarrow> Yield t (testDependencyTypings this pkg rest))))"

fun dependencyTypings ::
  "AllPackages \<Rightarrow> TypingsData \<Rightarrow> (string \<times> DependencyVersion) list
     \<Rightarrow> TypingsData option generated \<Rightarrow> TypingsData option generated" where
  "dependencyTypings this pkg [] after = after"
| "dependencyTypings this pkg ((name, version) # rest) after =
     (case map_of (ap_data this) (getMangledNameForScopedPackage name) of
        None \<Rightarrow> dependencyTypings this pkg rest after
      | Some versions \<Rightarrow>
          (case get versions version (pathMappingMessage pkg name) of
             Inl e \<Rightarrow> Throw e
           | Inr t \<Rightarrow> Yield t (dependencyTypings this pkg rest after)))"

definition allDependencyTypings ::
  "AllPackages \<Rightarrow> TypingsData \<Rightarrow> TypingsData option generated" where
  "allDependencyTypings this pkg =
     dependencyTypings this pkg (dependencies (data pkg))
       (testDependencyTypings this pkg (testDependencies (data pkg)))"

section \<open>Specification-level notions\<close>

text \<open>
  The dependency records of a package as the specification words them: one resolution
  per declared dependency that has a version set, in declaration order, then one per
  test dependency that has a version set, in declaration order, through the path-mapping
  override when there is one and the latest record otherwise. A resolution is the
  record or the error of the lookup. A path mapping is present for a name when the
  package declares one (\<open>map_of\<close> on the declared mappings). \<open>spec_generate\<close> yields the
  records of a list of resolutions up to the first error, which it throws.
\<close>

definition spec_pathMappingMessage :: "TypingsData \<Rightarrow> string \<Rightarrow> errorMessage option" where
  "spec_pathMappingMessage pkg name =
     (case map_of (pathMappings (data pkg)) name of
        None \<Rightarrow> None
      | Some _ \<Rightarrow> Some (PathMappingReference (TypingsData_name pkg) name))"

definition spec_dependencyResolutions ::
  "AllPackages \<Rightarrow> TypingsData \<Rightarrow> (error + TypingsData option) list" where
  "spec_dependencyResolutions ap pkg =
     concat (map (\<lambda>(name, version).
         case map_of (ap_data ap) (getMangledNameForScopedPackage name) of
           None \<Rightarrow> []
         | Some vs \<Rightarrow> [get vs version (spec_pathMappingMessage pkg name)])
       (dependencies (data pkg)))
     @ concat (map (\<lambda>name.
         case map_of (ap_data ap) (getMangledNameForScopedPackage name) of
           None \<Rightarrow> []
         | Some vs \<Rightarrow>
             [case map_of (pathMappings (data pkg)) name of
                Some v \<Rightarrow> get vs (Dir v) None
              | None \<Rightarrow> Inr (getLatest vs)])
       (testDependencies (data pkg)))"

fun spec_generate :: "(error + 'a) list \<Rightarrow> 'a generated" where
  "spec_generate [] = Done"
| "spec_generate (Inl e # rest) = Throw e"
| "spec_generate (Inr x # rest) = Yield x (spec_generate rest)"

text \<open>
  A stored key satisfies a requested version, in the specification's words: the wildcard
  is satisfied by every key; otherwise the majors are equal, and the minors are equal or
  the requested minor is unspecified.
\<close>

definition spec_matches :: "DependencyVersion \<Rightarrow> nat \<times> nat \<Rightarrow> bool" where
  "spec_matches version key =
     (case version of
        Star \<Rightarrow> True
      | Dir v \<Rightarrow> fst key = dv_major v \<and> (dv_minor v = None \<or> dv_minor v = Some (snd key)))"

section \<open>Example data\<close>

text \<open>
  A small registry for concrete instances: the package \<^verbatim>\<open>bar\<close> with the version 1.0 and the
  package \<^verbatim>\<open>foo\<close> with the versions 1.0, 2.3 and 2.1 (in this order in the raw file).
  The record stored under \<^verbatim>\<open>foo\<close>'s key 2.1 has a header that gives the version 2.2.
\<close>

definition exampleRaw :: "string \<Rightarrow> nat \<Rightarrow> nat \<Rightarrow> TypingsDataRaw" where
  "exampleRaw name major minor =
     \<lparr>libraryName = name, typingsPackageName = name, dependencies = [],
      testDependencies = [], pathMappings = [],
      libraryMajorVersion = major, libraryMinorVersion = minor\<rparr>"

definition exampleVersionsRaw :: TypingsVersionsRaw where
  "exampleVersionsRaw =
     [((1, 0), exampleRaw ''foo'' 1 0), ((2, 3), exampleRaw ''foo'' 2 3),
      ((2, 1), exampleRaw ''foo'' 2 2)]"

definition exampleVersions :: TypingsVersions where
  "exampleVersions =
     \<lparr>tv_map =
        [(\<lparr>sv_major = 2, sv_minor = 3, sv_patch = 0\<rparr>,
          \<lparr>data = exampleRaw ''foo'' 2 3, isLatest = True\<rparr>),
         (\<lparr>sv_major = 2, sv_minor = 1, sv_patch = 0\<rparr>,
          \<lparr>data = exampleRaw ''foo'' 2 2, isLatest = False\<rparr>),
         (\<lparr>sv_major = 1, sv_minor = 0, sv_patch = 0\<rparr>,
          \<lparr>data = exampleRaw ''foo'' 1 0, isLatest = False\<rparr>)],
      tv_versions =
        [\<lparr>sv_major = 2, sv_minor = 3, sv_patch = 0\<rparr>,
         \<lparr>sv_major = 2, sv_minor = 1, sv_patch = 0\<rparr>,
         \<lparr>sv_major = 1, sv_minor = 0, sv_patch = 0\<rparr>]\<rparr>"

definition exampleBarVersions :: TypingsVersions where
  "exampleBarVersions =
     \<lparr>tv_map =
        [(\<lparr>sv_major = 1, sv_minor = 0, sv_patch = 0\<rparr>,
          \<lparr>data = exampleRaw ''bar'' 1 0, isLatest = True\<rparr>)],
      tv_versions = [\<lparr>sv_major = 1, sv_minor = 0, sv_patch = 0\<rparr>]\<rparr>"

definition exampleFile :: TypesDataFile where
  "exampleFile = [(''bar'', [((1, 0), exampleRaw ''bar'' 1 0)]), (''foo'', exampleVersionsRaw)]"

definition exampleRegistry :: AllPackages where
  "exampleRegistry =
     \<lparr>ap_data = [(''bar'', exampleBarVersions), (''foo'', exampleVersions)], notNeeded = []\<rparr>"

definition examplePackage :: TypingsData where
  "examplePackage =
     \<lparr>data = (exampleRaw ''baz'' 1 0)
        \<lparr>dependencies := [(''ext'', Star), (''foo'', Dir \<lparr>dv_major = 1, dv_minor = None\<rparr>)],
         testDependencies := [''bar'']\<rparr>,
      isLatest = True\<rparr>"

text \<open>
  A registry with a package whose name is \<^verbatim>\<open>constructor\<close>, and a package that has it as a
  test dependency and declares no path mapping.
\<close>

definition constructorVersions :: TypingsVersions where
  "constructorVersions =
     \<lparr>tv_map =
        [(\<lparr>sv_major = 1, sv_minor = 0, sv_patch = 0\<rparr>,
          \<lparr>data = exampleRaw ''constructor'' 1 0, isLatest = True\<rparr>)],
      tv_versions = [\<lparr>sv_major = 1, sv_minor = 0, sv_patch = 0\<rparr>]\<rparr>"

definition constructorFile :: TypesDataFile where
  "constructorFile = [(''constructor'', [((1, 0), exampleRaw ''constructor'' 1 0)])]"

definition constructorRegistry :: AllPackages where
  "constructorRegistry = \<lparr>ap_data = [(''constructor'', constructorVersions)], notNeeded = []\<rparr>"

definition constructorDependent :: TypingsData where
  "constructorDependent =
     \<lparr>data = (exampleRaw ''baz'' 1 0)\<lparr>testDependencies := [''constructor'']\<rparr>,
      isLatest = True\<rparr>"

section \<open>Auxiliary notions for the proofs\<close>

text \<open>
  \<open>key3\<close> is the triple that \<^verbatim>\<open>semver.compare\<close> orders lexicographically;
  \<open>sortedKeys d\<close> is the value of \<^verbatim>\<open>this.versions\<close> after the constructor has sorted it.
\<close>

definition key3 :: "SemVer \<Rightarrow> nat \<times> nat \<times> nat" where
  "key3 v = (sv_major v, sv_minor v, sv_patch v)"

definition sortedKeys :: "TypingsVersionsRaw \<Rightarrow> SemVer list" where
  "sortedKeys d = Array_sort semver_rcompare (map (\<lambda>key. keyVersion key) (map fst d))"

section \<open>Properties of name mangling\<close>

lemma String_replace_absent: "c \<notin> set s \<Longrightarrow> String_replace s c r = s"
  by (induction s) auto

lemma String_replace_first:
  "c \<notin> set pre \<Longrightarrow> String_replace (pre @ c # post) c r = pre @ r @ post"
  by (induction pre) auto

lemma String_replace_changes:
  "c \<in> set s \<Longrightarrow> c \<notin> set r \<Longrightarrow> String_replace s c r \<noteq> s"
proof (induction s)
  case Nil
  then show ?case by simp
next
  case (Cons x xs)
  show ?case
  proof (cases "x = c")
    case True
    have "r @ xs \<noteq> x # xs"
    proof
      assume eq: "r @ xs = x # xs"
      then have "length (r @ xs) = length (x # xs)" by simp
      then have "length r = Suc 0" by simp
      then obtain y where "r = [y]" by (auto simp: length_Suc_conv)
      with eq True Cons.prems(2) show False by simp
    qed
    with True show ?thesis by simp
  next
    case False
    with Cons show ?thesis by simp
  qed
qed

lemma split_at_first:
  assumes "c \<in> set s"
  obtains pre post where "s = pre @ c # post" and "c \<notin> set pre"
  using assms by (metis split_list_first)

lemma mangle_scoped:
  assumes "CHR ''/'' \<notin> set pre"
  shows "getMangledNameForScopedPackage (CHR ''@'' # pre @ CHR ''/'' # post) = pre @ ''__'' @ post"
proof -
  let ?n = "CHR ''@'' # pre @ CHR ''/'' # post"
  have notin: "CHR ''/'' \<notin> set (CHR ''@'' # pre)" using assms by simp
  have r: "String_replace ?n (CHR ''/'') ''__'' = CHR ''@'' # pre @ ''__'' @ post"
    using String_replace_first [OF notin, of post "''__''"] by simp
  have "String_replace ?n (CHR ''/'') ''__'' \<noteq> ?n"
    by (rule String_replace_changes) simp_all
  then show ?thesis
    unfolding getMangledNameForScopedPackage_def Let_def r
    by (simp add: startsWith_def slice_def)
qed

lemma mangle_unchanged:
  assumes "\<not> (startsWith name ''@'' \<and> CHR ''/'' \<in> set name)"
  shows "getMangledNameForScopedPackage name = name"
  using assms
  by (auto simp: getMangledNameForScopedPackage_def Let_def String_replace_absent)

text \<open>
  C5 (as amended). A name that starts with the scope marker \<^verbatim>\<open>@\<close> and contains at least one
  path separator \<^verbatim>\<open>/\<close> is mangled by replacing its first separator with a double
  underscore and dropping the leading scope marker; separators after the first are kept.
  Every other name (one that does not start with the scope marker, or contains no
  separator) is returned unchanged.
\<close>

theorem mangle_first_separator:
  "(name = CHR ''@'' # pre @ CHR ''/'' # post \<and> CHR ''/'' \<notin> set pre
      \<longrightarrow> getMangledNameForScopedPackage name = pre @ ''__'' @ post) \<and>
   (\<not> (startsWith name ''@'' \<and> CHR ''/'' \<in> set name)
      \<longrightarrow> getMangledNameForScopedPackage name = name)"
  using mangle_scoped mangle_unchanged by blast

theorem mangle_first_separator_witness:
  "getMangledNameForScopedPackage ''@foo/bar'' = ''foo__bar'' \<and>
   getMangledNameForScopedPackage ''jquery'' = ''jquery''"
proof -
  have a: "getMangledNameForScopedPackage ''@foo/bar'' = ''foo'' @ ''__'' @ ''bar''"
    using mangle_first_separator [of "''@foo/bar''" "''foo''" "''bar''"] by simp
  have b: "getMangledNameForScopedPackage ''jquery'' = ''jquery''"
    using mangle_first_separator [of "''jquery''" "[]" "[]"] by (simp add: startsWith_def)
  from a b show ?thesis by simp
qed

text \<open>
  C5 (as stated) fails: \<^verbatim>\<open>@a/b/c\<close> does not contain exactly one separator, so the
  claim says it is returned unchanged, but the code rewrites it to \<^verbatim>\<open>a__b/c\<close>.
\<close>

theorem mangle_two_separators_counterexample:
  "startsWith ''@a/b/c'' ''@'' \<and> count_list ''@a/b/c'' (CHR ''/'') \<noteq> 1 \<and>
   getMangledNameForScopedPackage ''@a/b/c'' = ''a__b/c'' \<and>
   getMangledNameForScopedPackage ''@a/b/c'' \<noteq> ''@a/b/c''"
  by (simp add: getMangledNameForScopedPackage_def startsWith_def slice_def)

lemma count_replace_first:
  "CHR ''/'' \<notin> set pre \<Longrightarrow>
   count_list (CHR ''@'' # pre @ CHR ''/'' # post) (CHR ''/'') = Suc (count_list post (CHR ''/''))"
  by (induction pre) auto

lemma count_list_pos: "0 < count_list s c \<longleftrightarrow> c \<in> set s"
  by (induction s) auto

lemma mangle_changes:
  assumes "startsWith y ''@''" and "CHR ''/'' \<in> set y"
  shows "getMangledNameForScopedPackage y \<noteq> y"
proof -
  from assms(1) obtain t where y: "y = CHR ''@'' # t"
    by (cases y) (auto simp: startsWith_def)
  with assms(2) have "CHR ''/'' \<in> set t" by simp
  then obtain pre post where t: "t = pre @ CHR ''/'' # post" and pre: "CHR ''/'' \<notin> set pre"
    by (rule split_at_first)
  have m: "getMangledNameForScopedPackage y = pre @ ''__'' @ post"
    unfolding y t using pre by (rule mangle_scoped)
  have c1: "count_list (pre @ ''__'' @ post) (CHR ''/'') = count_list post (CHR ''/'')"
    using pre by (induction pre) auto
  have c2: "count_list y (CHR ''/'') = Suc (count_list post (CHR ''/''))"
    unfolding y t using pre by (rule count_replace_first)
  show ?thesis
  proof
    assume e: "getMangledNameForScopedPackage y = y"
    have "count_list (getMangledNameForScopedPackage y) (CHR ''/'') = count_list post (CHR ''/'')"
      unfolding m by (rule c1)
    then have "count_list y (CHR ''/'') = count_list post (CHR ''/'')"
      unfolding e .
    with c2 show False by simp
  qed
qed

text \<open>
  C6 (as amended). Mangling twice gives the same result as mangling once for every string
  except those that start with two scope markers \<^verbatim>\<open>@@\<close> and contain at least two path
  separators; for exactly those strings the second mangling changes the result again.
\<close>

theorem mangle_idempotent_iff:
  "getMangledNameForScopedPackage (getMangledNameForScopedPackage x)
     = getMangledNameForScopedPackage x
   \<longleftrightarrow> \<not> (startsWith x ''@@'' \<and> 2 \<le> count_list x (CHR ''/''))"
proof (cases "startsWith x ''@'' \<and> CHR ''/'' \<in> set x")
  case False
  then have "getMangledNameForScopedPackage x = x" by (rule mangle_unchanged)
  moreover have "\<not> (startsWith x ''@@'' \<and> 2 \<le> count_list x (CHR ''/''))"
  proof
    assume a: "startsWith x ''@@'' \<and> 2 \<le> count_list x (CHR ''/'')"
    then have "startsWith x ''@''" by (cases x) (auto simp: startsWith_def)
    moreover from a have "0 < count_list x (CHR ''/'')" by simp
    then have "CHR ''/'' \<in> set x" by (simp add: count_list_pos)
    ultimately show False using False by simp
  qed
  ultimately show ?thesis by simp
next
  case True
  then obtain t where x: "x = CHR ''@'' # t"
    by (cases x) (auto simp: startsWith_def)
  with True have "CHR ''/'' \<in> set t" by simp
  then obtain pre post where t: "t = pre @ CHR ''/'' # post" and pre: "CHR ''/'' \<notin> set pre"
    by (rule split_at_first)
  let ?y = "pre @ ''__'' @ post"
  have m: "getMangledNameForScopedPackage x = ?y"
    unfolding x t using pre by (rule mangle_scoped)
  have cnt: "count_list x (CHR ''/'') = Suc (count_list post (CHR ''/''))"
    unfolding x t using pre by (rule count_replace_first)
  have sw: "startsWith ?y ''@'' \<longleftrightarrow> startsWith x ''@@''"
    unfolding x t by (cases pre) (auto simp: startsWith_def)
  have sl: "CHR ''/'' \<in> set ?y \<longleftrightarrow> 2 \<le> count_list x (CHR ''/'')"
    using pre cnt count_list_pos [of post "CHR ''/''"] by auto
  show ?thesis
  proof (cases "startsWith ?y ''@'' \<and> CHR ''/'' \<in> set ?y")
    case True
    then have "getMangledNameForScopedPackage ?y \<noteq> ?y"
      by (intro mangle_changes) simp_all
    with True sw sl m show ?thesis by simp
  next
    case False
    then have "getMangledNameForScopedPackage ?y = ?y" by (rule mangle_unchanged)
    with False sw sl m show ?thesis by auto
  qed
qed

theorem mangle_idempotent_iff_witness:
  "getMangledNameForScopedPackage (getMangledNameForScopedPackage ''@foo/bar'')
     = getMangledNameForScopedPackage ''@foo/bar''"
  using mangle_idempotent_iff [of "''@foo/bar''"] by (simp add: startsWith_def)

text \<open>
  C6 (as stated) fails: \<^verbatim>\<open>@@a/b/c\<close> is mangled to \<^verbatim>\<open>@a__b/c\<close>, which is itself a scoped
  name with a separator, and is mangled further to \<^verbatim>\<open>a__b__c\<close>.
\<close>

theorem mangle_idempotent_counterexample:
  "getMangledNameForScopedPackage (getMangledNameForScopedPackage ''@@a/b/c'')
     \<noteq> getMangledNameForScopedPackage ''@@a/b/c''"
  by (simp add: getMangledNameForScopedPackage_def startsWith_def slice_def)

section \<open>Properties of sorting and of the version-set constructor\<close>

lemma rcompare_le: "semver_rcompare a b \<le> 0 \<longleftrightarrow> key3 b \<le> key3 a"
  by (auto simp: semver_rcompare_def semver_compare_def compareIdentifiers_def key3_def)

lemma key3_keyVersion: "key3 (keyVersion k) \<le> key3 (keyVersion k') \<longleftrightarrow> k \<le> k'"
  by (cases k; cases k') (auto simp: key3_def keyVersion_def)

lemma set_Array_insert: "set (Array_insert cmp x ys) = insert x (set ys)"
  by (induction ys) auto

lemma set_Array_sort: "set (Array_sort cmp xs) = set xs"
  unfolding Array_sort_def by (induction xs) (auto simp: set_Array_insert)

lemma length_Array_insert: "length (Array_insert cmp x ys) = Suc (length ys)"
  by (induction ys) auto

lemma length_Array_sort: "length (Array_sort cmp xs) = length xs"
  unfolding Array_sort_def by (induction xs) (auto simp: length_Array_insert)

lemma sorted_Array_insert:
  "sorted_wrt (\<lambda>a b. key3 b \<le> key3 a) ys \<Longrightarrow>
   sorted_wrt (\<lambda>a b. key3 b \<le> key3 a) (Array_insert semver_rcompare x ys)"
proof (induction ys)
  case Nil
  then show ?case by simp
next
  case (Cons y ys)
  show ?case
  proof (cases "semver_rcompare x y \<le> 0")
    case True
    then have "key3 y \<le> key3 x" by (simp add: rcompare_le)
    moreover have "\<forall>z \<in> set ys. key3 z \<le> key3 y" using Cons.prems by simp
    ultimately have "\<forall>z \<in> set (y # ys). key3 z \<le> key3 x" by auto
    with True Cons.prems show ?thesis by simp
  next
    case False
    then have "key3 x \<le> key3 y" by (simp add: rcompare_le)
    with False Cons show ?thesis by (auto simp: set_Array_insert)
  qed
qed

lemma sorted_Array_sort:
  "sorted_wrt (\<lambda>a b. key3 b \<le> key3 a) (Array_sort semver_rcompare xs)"
  unfolding Array_sort_def by (induction xs) (auto intro: sorted_Array_insert)

lemma mapEntries_total:
  "(\<forall>v \<in> set vs. (sv_major v, sv_minor v) \<in> fst ` set d) \<Longrightarrow> \<exists>es. mapEntries d vs i = Inr es"
proof (induction vs arbitrary: i)
  case Nil
  then show ?case by simp
next
  case (Cons v vs)
  then have "(sv_major v, sv_minor v) \<in> fst ` set d" by simp
  then obtain r where "map_of d (sv_major v, sv_minor v) = Some r"
    by (metis domD dom_map_of_conv_image_fst)
  moreover obtain es where "mapEntries d vs (Suc i) = Inr es"
    using Cons by auto
  ultimately show ?case by (simp add: TypingsData_new_def)
qed

lemma mapEntries_fst: "mapEntries d vs i = Inr es \<Longrightarrow> map fst es = vs"
  by (induction vs arbitrary: i es) (auto split: sum.splits)

lemma mapEntries_not_latest:
  "mapEntries d vs (Suc i) = Inr es \<Longrightarrow> (v, t) \<in> set es \<Longrightarrow> \<not> isLatest t"
  by (induction vs arbitrary: i es)
     (auto split: sum.splits option.splits simp: TypingsData_new_def)

lemma mapEntries_head_latest:
  "mapEntries d (v # vs) 0 = Inr es \<Longrightarrow> isLatest (snd (hd es))"
  by (auto split: sum.splits option.splits simp: TypingsData_new_def)

lemma mapEntries_tail_not_latest:
  assumes "mapEntries d (v # vs) i = Inr es" and "t \<in> set (tl (map snd es))"
  shows "\<not> isLatest t"
proof -
  from assms(1) obtain t0 es' where
    es': "mapEntries d vs (Suc i) = Inr es'" and es: "es = (v, t0) # es'"
    by (auto split: sum.splits)
  with assms(2) obtain w where "(w, t) \<in> set es'" by auto
  with es' show ?thesis by (rule mapEntries_not_latest)
qed

lemma mapEntries_lookup:
  "mapEntries d vs i = Inr es \<Longrightarrow> v \<in> set vs \<Longrightarrow>
   \<exists>t. map_of es v = Some t \<and> map_of d (sv_major v, sv_minor v) = Some (data t)
       \<and> (isLatest t \<longleftrightarrow> i = 0 \<and> v = hd vs)"
proof (induction vs arbitrary: i es)
  case Nil
  then show ?case by simp
next
  case (Cons w ws)
  from Cons.prems(1) obtain t0 es' where
    t0: "TypingsData_new (map_of d (sv_major w, sv_minor w)) (i = 0) = Inr t0"
    and es': "mapEntries d ws (Suc i) = Inr es'" and es: "es = (w, t0) # es'"
    by (auto split: sum.splits)
  show ?case
  proof (cases "v = w")
    case True
    with t0 es show ?thesis
      by (auto simp: TypingsData_new_def split: option.splits)
  next
    case False
    with Cons.prems(2) have "v \<in> set ws" by simp
    from Cons.IH [OF es' this] obtain t where
      t: "map_of es' v = Some t" "map_of d (sv_major v, sv_minor v) = Some (data t)"
      by blast
    from t(1) have "(v, t) \<in> set es'" by (rule map_of_SomeD)
    with es' have "\<not> isLatest t" by (rule mapEntries_not_latest)
    with t False es show ?thesis by simp
  qed
qed

lemma map_of_first_index:
  "i < length es \<Longrightarrow> \<forall>j<i. fst (es ! j) \<noteq> fst (es ! i) \<Longrightarrow>
   map_of es (fst (es ! i)) = Some (snd (es ! i))"
proof (induction es arbitrary: i)
  case Nil
  then show ?case by simp
next
  case (Cons e es)
  show ?case
  proof (cases i)
    case 0
    then show ?thesis by (cases e) simp
  next
    case (Suc n)
    with Cons.prems(2) have ne: "fst e \<noteq> fst (es ! n)" by fastforce
    have "\<forall>j<n. fst (es ! j) \<noteq> fst (es ! n)"
    proof (intro allI impI)
      fix j assume "j < n"
      then have "Suc j < i" using Suc by simp
      with Cons.prems(2) have "fst ((e # es) ! Suc j) \<noteq> fst ((e # es) ! i)" by blast
      with Suc show "fst (es ! j) \<noteq> fst (es ! n)" by simp
    qed
    moreover have "n < length es" using Cons.prems(1) Suc by simp
    ultimately have "map_of es (fst (es ! n)) = Some (snd (es ! n))" by (rule Cons.IH [rotated])
    with ne Suc show ?thesis by (cases e) auto
  qed
qed

lemma set_sortedKeys: "set (sortedKeys d) = keyVersion ` fst ` set d"
  by (simp add: sortedKeys_def set_Array_sort image_image)

lemma length_sortedKeys: "length (sortedKeys d) = length d"
  by (simp add: sortedKeys_def length_Array_sort)

lemma sorted_sortedKeys: "sorted_wrt (\<lambda>a b. key3 b \<le> key3 a) (sortedKeys d)"
  unfolding sortedKeys_def by (rule sorted_Array_sort)

lemma sortedKeys_in_raw: "\<forall>v \<in> set (sortedKeys d). (sv_major v, sv_minor v) \<in> fst ` set d"
  by (auto simp: set_sortedKeys keyVersion_def)

lemma TypingsVersions_new_total:
  "\<exists>es. mapEntries d (sortedKeys d) 0 = Inr es \<and>
        TypingsVersions_new d = Inr \<lparr>tv_map = es, tv_versions = sortedKeys d\<rparr>"
proof -
  obtain es where "mapEntries d (sortedKeys d) 0 = Inr es"
    using mapEntries_total [OF sortedKeys_in_raw] by blast
  then show ?thesis
    by (simp add: TypingsVersions_new_def sortedKeys_def Let_def)
qed

lemma TypingsVersions_new_Inr:
  assumes "TypingsVersions_new d = Inr tv"
  shows "tv_versions tv = sortedKeys d" and "mapEntries d (sortedKeys d) 0 = Inr (tv_map tv)"
  using assms TypingsVersions_new_total [of d] by auto

lemma hd_sortedKeys_max:
  assumes "d \<noteq> []"
  shows "\<exists>k \<in> fst ` set d. hd (sortedKeys d) = keyVersion k \<and> (\<forall>k' \<in> fst ` set d. k' \<le> k)"
proof -
  from assms have ne: "sortedKeys d \<noteq> []"
    using length_sortedKeys [of d] by auto
  then obtain v vs where vs: "sortedKeys d = v # vs" by (cases "sortedKeys d") auto
  then have "v \<in> set (sortedKeys d)" by simp
  then obtain k where k: "k \<in> fst ` set d" "v = keyVersion k"
    by (auto simp: set_sortedKeys)
  have "\<forall>w \<in> set vs. key3 w \<le> key3 v"
    using sorted_sortedKeys [of d] vs by simp
  then have "\<forall>w \<in> set (sortedKeys d). key3 w \<le> key3 v" using vs by auto
  then have "\<forall>k' \<in> fst ` set d. k' \<le> k"
    using k(2) by (auto simp: set_sortedKeys key3_keyVersion)
  with k vs show ?thesis by auto
qed

lemma find_first_greatest:
  "sorted_wrt (\<lambda>a b. key3 b \<le> key3 a) vs \<Longrightarrow> find P vs = Some v \<Longrightarrow>
   \<forall>w \<in> set vs. P w \<longrightarrow> key3 w \<le> key3 v"
  by (induction vs) (auto split: if_splits)


section \<open>Not-needed packages: the accessors and the validation order\<close>

lemma globals_never_Some: "NotNeededPackage_globals p = Some y \<Longrightarrow> False"
  by (rule NotNeededPackage_globals.raw_induct [where P = "\<lambda>_ _. False"])

text \<open>
  C9. Reading \<^verbatim>\<open>globals\<close> on a not-needed package never produces a value: the getter
  only calls itself, so the call does not return (the value \<open>None\<close> of the model), for
  every package. Reading \<^verbatim>\<open>declaredModules\<close> returns the empty list.
\<close>

theorem NotNeededPackage_globals_diverges:
  "NotNeededPackage_globals p = None \<and> NotNeededPackage_declaredModules p = Some []"
proof -
  have "NotNeededPackage_globals p = None"
    using globals_never_Some [of p] by (cases "NotNeededPackage_globals p") auto
  then show ?thesis by (simp add: NotNeededPackage_declaredModules_def)
qed

lemma find_unexpected_None:
  "find (\<lambda>key. key \<notin> set allowedKeys) ks = None \<longleftrightarrow>
   set ks \<subseteq> {''libraryName'', ''sourceRepoURL'', ''asOfVersion''}"
  by (auto simp: find_None_iff allowedKeys_def)

lemma find_unexpected_Some:
  "\<not> set ks \<subseteq> {''libraryName'', ''sourceRepoURL'', ''asOfVersion''} \<Longrightarrow>
   find (\<lambda>key. key \<notin> set allowedKeys) ks =
     Some (hd (filter (\<lambda>key. key \<notin> {''libraryName'', ''sourceRepoURL'', ''asOfVersion''}) ks))"
  by (induction ks) (auto simp: allowedKeys_def)

text \<open>
  C7. For a raw record that has its two string fields \<^verbatim>\<open>libraryName\<close> and \<^verbatim>\<open>asOfVersion\<close>,
  \<^verbatim>\<open>fromRaw\<close> applies its rules in this order and fails with the error of the first rule
  that is violated: (1) the name is not all lower-case, that is, differs from its image
  under the runtime's \<^verbatim>\<open>toLowerCase\<close> (the parameter \<open>toLowerCase\<close>); (2) some key is outside
  \<^verbatim>\<open>{libraryName, sourceRepoURL, asOfVersion}\<close> (the first such key is reported);
  (3) \<^verbatim>\<open>libraryName\<close> is not all lower-case; (4) \<^verbatim>\<open>libraryName\<close>, the name or
  \<^verbatim>\<open>asOfVersion\<close> is empty; (5) \<^verbatim>\<open>asOfVersion\<close> does not parse as a semantic version.
  When no rule is violated the constructed package is returned.
\<close>

theorem fromRaw_validation_order:
  assumes "map_of raw ''libraryName'' = Some libName"
    and "map_of raw ''asOfVersion'' = Some asOfVersion"
  shows "fromRaw toLowerCase parse name raw =
     (if name \<noteq> toLowerCase name then Inl (NameNotLowerCase name)
      else if \<not> set (map fst raw) \<subseteq> {''libraryName'', ''sourceRepoURL'', ''asOfVersion''}
        then Inl (UnexpectedKey
          (hd (filter (\<lambda>key. key \<notin> {''libraryName'', ''sourceRepoURL'', ''asOfVersion''})
                 (map fst raw))))
      else if libName \<noteq> toLowerCase libName then Inl (LibraryNameNotLowerCase name)
      else if libName = [] \<or> name = [] \<or> asOfVersion = [] then Inl AssertionError
      else case parse asOfVersion of
             None \<Rightarrow> Inl (InvalidVersion asOfVersion)
           | Some v \<Rightarrow> Inr \<lparr>nn_name = name, nn_libraryName = libName, nn_version = v\<rparr>)"
proof (cases "set (map fst raw) \<subseteq> {''libraryName'', ''sourceRepoURL'', ''asOfVersion''}")
  case True
  then have "find (\<lambda>key. key \<notin> set allowedKeys) (map fst raw) = None"
    by (simp only: find_unexpected_None)
  with True assms show ?thesis
    by (simp add: fromRaw_def NotNeededPackage_new_def)
next
  case False
  from find_unexpected_Some [OF False] False show ?thesis
    by (simp add: fromRaw_def)
qed

theorem fromRaw_validation_order_witness:
  "fromRaw asciiToLowerCase (\<lambda>s. if s = ''1.0.0'' then Some \<lparr>sv_major = 1, sv_minor = 0, sv_patch = 0\<rparr> else None)
     ''foo'' [(''libraryName'', ''foo''), (''asOfVersion'', ''1.0.0'')]
     = Inr \<lparr>nn_name = ''foo'', nn_libraryName = ''foo'',
            nn_version = \<lparr>sv_major = 1, sv_minor = 0, sv_patch = 0\<rparr>\<rparr> \<and>
   fromRaw asciiToLowerCase (\<lambda>s. if s = ''1.0.0'' then Some \<lparr>sv_major = 1, sv_minor = 0, sv_patch = 0\<rparr> else None)
     ''Foo'' [(''libraryName'', ''foo''), (''asOfVersion'', ''1.0.0'')]
     = Inl (NameNotLowerCase ''Foo'') \<and>
   fromRaw asciiToLowerCase (\<lambda>s. if s = ''1.0.0'' then Some \<lparr>sv_major = 1, sv_minor = 0, sv_patch = 0\<rparr> else None)
     ''foo'' [(''libraryName'', ''Foo''), (''asOfVersion'', ''1.0.0'')]
     = Inl (LibraryNameNotLowerCase ''foo'') \<and>
   fromRaw asciiToLowerCase (\<lambda>s. if s = ''1.0.0'' then Some \<lparr>sv_major = 1, sv_minor = 0, sv_patch = 0\<rparr> else None)
     ''foo'' [(''libraryName'', ''foo''), (''asOfVersion'', ''1.0.0''), (''extra'', ''1'')]
     = Inl (UnexpectedKey ''extra'') \<and>
   fromRaw asciiToLowerCase (\<lambda>s. if s = ''1.0.0'' then Some \<lparr>sv_major = 1, sv_minor = 0, sv_patch = 0\<rparr> else None)
     ''foo'' [(''libraryName'', ''foo''), (''asOfVersion'', ''1.0'')]
     = Inl (InvalidVersion ''1.0'')"
proof -
  have l1: "asciiToLowerCase ''foo'' = ''foo''" by code_simp
  have l2: "asciiToLowerCase ''Foo'' = ''foo''" by code_simp
  let ?p = "\<lambda>s. if s = ''1.0.0'' then Some \<lparr>sv_major = 1, sv_minor = 0, sv_patch = 0\<rparr> else None"
  have a: "fromRaw asciiToLowerCase ?p ''foo'' [(''libraryName'', ''foo''), (''asOfVersion'', ''1.0.0'')]
     = Inr \<lparr>nn_name = ''foo'', nn_libraryName = ''foo'',
            nn_version = \<lparr>sv_major = 1, sv_minor = 0, sv_patch = 0\<rparr>\<rparr>"
    using fromRaw_validation_order
      [of "[(''libraryName'', ''foo''), (''asOfVersion'', ''1.0.0'')]" "''foo''" "''1.0.0''" asciiToLowerCase ?p "''foo''"]
    by (simp add: l1)
  have b: "fromRaw asciiToLowerCase ?p ''Foo'' [(''libraryName'', ''foo''), (''asOfVersion'', ''1.0.0'')]
     = Inl (NameNotLowerCase ''Foo'')"
    using fromRaw_validation_order
      [of "[(''libraryName'', ''foo''), (''asOfVersion'', ''1.0.0'')]" "''foo''" "''1.0.0''" asciiToLowerCase ?p "''Foo''"]
    by (simp add: l2)
  have c: "fromRaw asciiToLowerCase ?p ''foo'' [(''libraryName'', ''Foo''), (''asOfVersion'', ''1.0.0'')]
     = Inl (LibraryNameNotLowerCase ''foo'')"
    using fromRaw_validation_order
      [of "[(''libraryName'', ''Foo''), (''asOfVersion'', ''1.0.0'')]" "''Foo''" "''1.0.0''" asciiToLowerCase ?p "''foo''"]
    by (simp add: l1 l2)
  have d: "fromRaw asciiToLowerCase ?p ''foo'' [(''libraryName'', ''foo''), (''asOfVersion'', ''1.0.0''), (''extra'', ''1'')]
     = Inl (UnexpectedKey ''extra'')"
    using fromRaw_validation_order
      [of "[(''libraryName'', ''foo''), (''asOfVersion'', ''1.0.0''), (''extra'', ''1'')]"
          "''foo''" "''1.0.0''" asciiToLowerCase ?p "''foo''"]
    by (simp add: l1)
  have e: "fromRaw asciiToLowerCase ?p ''foo'' [(''libraryName'', ''foo''), (''asOfVersion'', ''1.0'')]
     = Inl (InvalidVersion ''1.0'')"
    using fromRaw_validation_order
      [of "[(''libraryName'', ''foo''), (''asOfVersion'', ''1.0'')]" "''foo''" "''1.0''" asciiToLowerCase ?p "''foo''"]
    by (simp add: l1)
  from a b c d e show ?thesis by (intro conjI)
qed


section \<open>The example registry\<close>

lemma sortedKeys_example:
  "Array_sort semver_rcompare (map (\<lambda>key. keyVersion key) (map fst exampleVersionsRaw))
     = [\<lparr>sv_major = 2, sv_minor = 3, sv_patch = 0\<rparr>,
        \<lparr>sv_major = 2, sv_minor = 1, sv_patch = 0\<rparr>,
        \<lparr>sv_major = 1, sv_minor = 0, sv_patch = 0\<rparr>]"
  by (simp add: exampleVersionsRaw_def Array_sort_def keyVersion_def semver_rcompare_def
      semver_compare_def compareIdentifiers_def)

lemma exampleVersions_built: "TypingsVersions_new exampleVersionsRaw = Inr exampleVersions"
  unfolding TypingsVersions_new_def sortedKeys_example Let_def
  by (simp add: exampleVersionsRaw_def exampleVersions_def TypingsData_new_def)

lemma exampleBarVersions_built:
  "TypingsVersions_new [((1, 0), exampleRaw ''bar'' 1 0)] = Inr exampleBarVersions"
  by (simp add: TypingsVersions_new_def Array_sort_def keyVersion_def exampleBarVersions_def
      TypingsData_new_def)

lemma exampleRegistry_built: "AllPackages_from exampleFile [] = Inr exampleRegistry"
  unfolding AllPackages_from_def exampleFile_def exampleRegistry_def
  by (simp only: mapValues.simps exampleVersions_built exampleBarVersions_built sum.case)

lemma mangle_example:
  "getMangledNameForScopedPackage ''foo'' = ''foo''"
  "getMangledNameForScopedPackage ''bar'' = ''bar''"
  "getMangledNameForScopedPackage ''ext'' = ''ext''"
  by (simp_all add: getMangledNameForScopedPackage_def startsWith_def)

lemma example_names_sorted: "''bar'' \<le> ''foo''" "\<not> ''foo'' \<le> ''bar''"
  by code_simp+

section \<open>The registry: all typings and dependency typings\<close>

lemma flattenData_concat:
  "flattenData m = concat (map (\<lambda>(k, vs). getAll vs) m)"
  by (induction m rule: flattenData.induct) auto

lemma mapValues_length:
  "mapValues d TypingsVersions_new = Inr m \<Longrightarrow>
   length (flattenData m) = sum_list (map (\<lambda>(k, raw). length raw) d)"
proof (induction d arbitrary: m)
  case Nil
  then show ?case by simp
next
  case (Cons a d)
  obtain k raw where a: "a = (k, raw)" by (cases a)
  from Cons.prems a obtain tv m' where
    tv: "TypingsVersions_new raw = Inr tv" and m': "mapValues d TypingsVersions_new = Inr m'"
    and m: "m = (k, tv) # m'"
    by (auto split: sum.splits)
  have "map fst (tv_map tv) = sortedKeys raw"
    using TypingsVersions_new_Inr(2) [OF tv] by (rule mapEntries_fst)
  then have "length (tv_map tv) = length raw"
    using length_sortedKeys [of raw] by (metis length_map)
  with Cons.IH [OF m'] a m show ?case by (simp add: getAll_def)
qed

text \<open>
  C8. \<^verbatim>\<open>allTypings()\<close> returns the concatenation of the records of every version set, in
  the order of the registry and unchanged, when the names of that sequence are in
  ascending order, and fails with the assertion's error exactly when they are not. In a
  registry built by \<^verbatim>\<open>AllPackages.from\<close> the sequence has one record for every version
  of every package, not only the latest ones.
\<close>

theorem allTypings_flattens_and_checks:
  "allTypings ap =
     (if sorted (map TypingsData_name (concat (map (\<lambda>(k, vs). getAll vs) (ap_data ap))))
      then Inr (concat (map (\<lambda>(k, vs). getAll vs) (ap_data ap)))
      else Inl AssertionError) \<and>
   (AllPackages_from d nn = Inr ap \<longrightarrow>
      length (concat (map (\<lambda>(k, vs). getAll vs) (ap_data ap)))
        = sum_list (map (\<lambda>(k, raw). length raw) d))"
proof
  show "allTypings ap =
     (if sorted (map TypingsData_name (concat (map (\<lambda>(k, vs). getAll vs) (ap_data ap))))
      then Inr (concat (map (\<lambda>(k, vs). getAll vs) (ap_data ap)))
      else Inl AssertionError)"
    by (simp add: allTypings_def assertSorted_def flattenData_concat)
  show "AllPackages_from d nn = Inr ap \<longrightarrow>
      length (concat (map (\<lambda>(k, vs). getAll vs) (ap_data ap)))
        = sum_list (map (\<lambda>(k, raw). length raw) d)"
  proof
    assume "AllPackages_from d nn = Inr ap"
    then have "mapValues d TypingsVersions_new = Inr (ap_data ap)"
      by (auto simp: AllPackages_from_def split: sum.splits)
    then show "length (concat (map (\<lambda>(k, vs). getAll vs) (ap_data ap)))
        = sum_list (map (\<lambda>(k, raw). length raw) d)"
      using mapValues_length by (simp only: flattenData_concat [symmetric])
  qed
qed

theorem allTypings_flattens_and_checks_witness:
  "allTypings exampleRegistry =
     Inr [\<lparr>data = exampleRaw ''bar'' 1 0, isLatest = True\<rparr>,
          \<lparr>data = exampleRaw ''foo'' 2 3, isLatest = True\<rparr>,
          \<lparr>data = exampleRaw ''foo'' 2 2, isLatest = False\<rparr>,
          \<lparr>data = exampleRaw ''foo'' 1 0, isLatest = False\<rparr>] \<and>
   allTypings \<lparr>ap_data = [(''foo'', exampleVersions), (''bar'', exampleBarVersions)], notNeeded = []\<rparr>
     = Inl AssertionError"
proof -
  have a: "allTypings exampleRegistry =
     Inr [\<lparr>data = exampleRaw ''bar'' 1 0, isLatest = True\<rparr>,
          \<lparr>data = exampleRaw ''foo'' 2 3, isLatest = True\<rparr>,
          \<lparr>data = exampleRaw ''foo'' 2 2, isLatest = False\<rparr>,
          \<lparr>data = exampleRaw ''foo'' 1 0, isLatest = False\<rparr>]"
    using allTypings_flattens_and_checks [of exampleRegistry exampleFile "[]"]
      exampleRegistry_built example_names_sorted
    by (simp add: exampleRegistry_def exampleVersions_def exampleBarVersions_def getAll_def
        TypingsData_name_def exampleRaw_def)
  have b: "allTypings \<lparr>ap_data = [(''foo'', exampleVersions), (''bar'', exampleBarVersions)], notNeeded = []\<rparr>
     = Inl AssertionError"
    using allTypings_flattens_and_checks
      [of "\<lparr>ap_data = [(''foo'', exampleVersions), (''bar'', exampleBarVersions)], notNeeded = []\<rparr>"
          exampleFile "[]"] example_names_sorted
    by (simp add: exampleVersions_def exampleBarVersions_def getAll_def
        TypingsData_name_def exampleRaw_def)
  from a b show ?thesis by simp
qed

lemma getProperty_declared:
  "name \<notin> set objectPrototypeKeys \<Longrightarrow>
   getProperty obj name = (case map_of obj name of None \<Rightarrow> Undefined | Some v \<Rightarrow> Own v)"
  by (simp add: getProperty_def split: option.splits)

lemma pathMappingMessage_declared:
  "name \<notin> set objectPrototypeKeys \<Longrightarrow>
   pathMappingMessage pkg name = spec_pathMappingMessage pkg name"
  by (simp add: pathMappingMessage_def spec_pathMappingMessage_def getProperty_declared
      split: option.splits)

lemma find_never: "find (\<lambda>v. False) xs = None"
  by (induction xs) simp_all

lemma get_inherited_throws: "get_inherited tv e = Inl (CouldNotFindVersionUndefined e)"
  by (simp add: get_inherited_def tryGetLatestMatch_inherited_def find_never)

lemma dependencyTypings_generate:
  "\<forall>name \<in> fst ` set deps. name \<notin> set objectPrototypeKeys \<Longrightarrow>
   dependencyTypings ap pkg deps (spec_generate rest) =
   spec_generate (concat (map (\<lambda>(name, version).
         case map_of (ap_data ap) (getMangledNameForScopedPackage name) of
           None \<Rightarrow> []
         | Some vs \<Rightarrow> [get vs version (spec_pathMappingMessage pkg name)]) deps) @ rest)"
proof (induction deps)
  case Nil
  then show ?case by simp
next
  case (Cons a deps)
  obtain name version where a: "a = (name, version)" by (cases a)
  from Cons.prems a have "name \<notin> set objectPrototypeKeys" by simp
  then have m: "pathMappingMessage pkg name = spec_pathMappingMessage pkg name"
    by (rule pathMappingMessage_declared)
  from Cons.prems have "\<forall>name \<in> fst ` set deps. name \<notin> set objectPrototypeKeys" by simp
  from Cons.IH [OF this] a m show ?case
    by (simp split: option.splits sum.splits)
qed

lemma testDependencyTypings_generate:
  "\<forall>name \<in> set names. name \<notin> set objectPrototypeKeys \<Longrightarrow>
   testDependencyTypings ap pkg names =
   spec_generate (concat (map (\<lambda>name.
         case map_of (ap_data ap) (getMangledNameForScopedPackage name) of
           None \<Rightarrow> []
         | Some vs \<Rightarrow>
             [case map_of (pathMappings (data pkg)) name of
                Some v \<Rightarrow> get vs (Dir v) None
              | None \<Rightarrow> Inr (getLatest vs)]) names))"
proof (induction names)
  case Nil
  then show ?case by simp
next
  case (Cons name names)
  then have "name \<notin> set objectPrototypeKeys" by simp
  then have p: "getProperty (pathMappings (data pkg)) name =
      (case map_of (pathMappings (data pkg)) name of None \<Rightarrow> Undefined | Some v \<Rightarrow> Own v)"
    by (rule getProperty_declared)
  from Cons.prems have "\<forall>name \<in> set names. name \<notin> set objectPrototypeKeys" by simp
  from Cons.IH [OF this] p show ?case
    by (simp split: option.splits sum.splits)
qed

lemma allDependencyTypings_declared_mappings:
  assumes "\<forall>name \<in> fst ` set (dependencies (data pkg)). name \<notin> set objectPrototypeKeys"
    and "\<forall>name \<in> set (testDependencies (data pkg)). name \<notin> set objectPrototypeKeys"
  shows "allDependencyTypings ap pkg = spec_generate (spec_dependencyResolutions ap pkg)"
  unfolding allDependencyTypings_def spec_dependencyResolutions_def
  by (simp only: testDependencyTypings_generate [OF assms(2)]
      dependencyTypings_generate [OF assms(1)])

lemma allDependencyTypings_example:
  "allDependencyTypings exampleRegistry examplePackage =
     Yield (Some \<lparr>data = exampleRaw ''foo'' 1 0, isLatest = False\<rparr>)
       (Yield (Some \<lparr>data = exampleRaw ''bar'' 1 0, isLatest = True\<rparr>) Done)"
proof -
  have r: "spec_dependencyResolutions exampleRegistry examplePackage =
     [Inr (Some \<lparr>data = exampleRaw ''foo'' 1 0, isLatest = False\<rparr>),
      Inr (Some \<lparr>data = exampleRaw ''bar'' 1 0, isLatest = True\<rparr>)]"
    by (simp add: spec_dependencyResolutions_def exampleRegistry_def examplePackage_def
        mangle_example get_def getLatestMatch_def tryGetLatestMatch_def getLatest_def
        versionMatches_def exampleVersions_def exampleBarVersions_def exampleRaw_def
        spec_pathMappingMessage_def)
  have "allDependencyTypings exampleRegistry examplePackage =
      spec_generate (spec_dependencyResolutions exampleRegistry examplePackage)"
    by (rule allDependencyTypings_declared_mappings)
       (simp_all add: examplePackage_def exampleRaw_def objectPrototypeKeys_def)
  then show ?thesis by (simp add: r)
qed

lemma testDependencyTypings_inherited:
  assumes "map_of (ap_data ap) (getMangledNameForScopedPackage name) = Some vs"
    and "map_of (pathMappings (data pkg)) name = None"
    and "name \<in> set objectPrototypeKeys"
  shows "testDependencyTypings ap pkg (name # rest) = Throw (CouldNotFindVersionUndefined None)"
  using assms by (simp add: getProperty_def get_inherited_throws)

lemma constructorRegistry_built: "AllPackages_from constructorFile [] = Inr constructorRegistry"
proof -
  have "TypingsVersions_new [((1, 0), exampleRaw ''constructor'' 1 0)] = Inr constructorVersions"
    by (simp add: TypingsVersions_new_def Array_sort_def keyVersion_def constructorVersions_def
        TypingsData_new_def)
  then show ?thesis
    unfolding AllPackages_from_def constructorFile_def constructorRegistry_def
    by (simp only: mapValues.simps sum.case)
qed

text \<open>
  C4 (the code departs from the claim). The claim says that a test dependency whose name
  has a version set and for which the package declares no path mapping yields that
  dependency's latest record. In the registry built from a file whose only package is
  \<^verbatim>\<open>constructor\<close>, for a package whose only test dependency is \<^verbatim>\<open>constructor\<close> and which
  declares no path mapping, the latest record of \<^verbatim>\<open>constructor\<close> exists, but
  \<^verbatim>\<open>allDependencyTypings\<close> yields nothing and throws: \<^verbatim>\<open>pkg.pathMappings[name]\<close> finds the
  property \<^verbatim>\<open>constructor\<close> that every object inherits, and \<^verbatim>\<open>versions.get\<close> of that value
  finds no version.
\<close>

theorem allDependencyTypings_inherited_mapping:
  "AllPackages_from constructorFile [] = Inr constructorRegistry \<and>
   dependencies (data constructorDependent) = [] \<and>
   testDependencies (data constructorDependent) = [''constructor''] \<and>
   pathMappings (data constructorDependent) = [] \<and>
   getLatest constructorVersions
     = Some \<lparr>data = exampleRaw ''constructor'' 1 0, isLatest = True\<rparr> \<and>
   spec_generate (spec_dependencyResolutions constructorRegistry constructorDependent)
     = Yield (Some \<lparr>data = exampleRaw ''constructor'' 1 0, isLatest = True\<rparr>) Done \<and>
   allDependencyTypings constructorRegistry constructorDependent
     = Throw (CouldNotFindVersionUndefined None) \<and>
   yielded (allDependencyTypings constructorRegistry constructorDependent) = []"
proof -
  have m: "getMangledNameForScopedPackage ''constructor'' = ''constructor''"
    by (simp add: getMangledNameForScopedPackage_def startsWith_def)
  have d: "dependencies (data constructorDependent) = []"
    "testDependencies (data constructorDependent) = [''constructor'']"
    "pathMappings (data constructorDependent) = []"
    by (simp_all add: constructorDependent_def exampleRaw_def)
  have l: "getLatest constructorVersions
     = Some \<lparr>data = exampleRaw ''constructor'' 1 0, isLatest = True\<rparr>"
    by (simp add: getLatest_def constructorVersions_def)
  have s: "spec_generate (spec_dependencyResolutions constructorRegistry constructorDependent)
     = Yield (Some \<lparr>data = exampleRaw ''constructor'' 1 0, isLatest = True\<rparr>) Done"
    by (simp add: spec_dependencyResolutions_def d m constructorRegistry_def l)
  have t: "testDependencyTypings constructorRegistry constructorDependent [''constructor'']
     = Throw (CouldNotFindVersionUndefined None)"
    by (rule testDependencyTypings_inherited)
       (simp_all add: m d constructorRegistry_def objectPrototypeKeys_def)
  have a: "allDependencyTypings constructorRegistry constructorDependent
     = Throw (CouldNotFindVersionUndefined None)"
    unfolding allDependencyTypings_def d by (simp only: dependencyTypings.simps t)
  from constructorRegistry_built d l s a show ?thesis by simp
qed


section \<open>Lookups in a constructed version set\<close>

lemma keyVersion_inj: "keyVersion k = keyVersion k' \<longleftrightarrow> k = k'"
  by (cases k; cases k') (simp add: keyVersion_def)

lemma keyVersion_fields:
  "sv_major (keyVersion k) = fst k" "sv_minor (keyVersion k) = snd k" "sv_patch (keyVersion k) = 0"
  by (simp_all add: keyVersion_def)

lemma sorted_pairs_sortedKeys:
  "sorted_wrt (\<lambda>a b. (sv_major b, sv_minor b) \<le> (sv_major a, sv_minor a)) (sortedKeys d)"
proof -
  have "sorted_wrt (\<lambda>a b. key3 b \<le> key3 a) (sortedKeys d)" by (rule sorted_sortedKeys)
  then show ?thesis
  proof (rule sorted_wrt_mono_rel [rotated])
    fix a b
    assume "a \<in> set (sortedKeys d)" and "b \<in> set (sortedKeys d)" and le: "key3 b \<le> key3 a"
    then obtain k k' where "a = keyVersion k" and "b = keyVersion k'"
      by (auto simp: set_sortedKeys)
    with le show "(sv_major b, sv_minor b) \<le> (sv_major a, sv_minor a)"
      by (simp add: key3_keyVersion keyVersion_fields)
  qed
qed

lemma find_built:
  assumes tv: "TypingsVersions_new d = Inr tv"
    and f: "find P (tv_versions tv) = Some v"
  shows "\<exists>i t. i < length (tv_versions tv) \<and> tv_versions tv ! i = v \<and>
           (\<forall>j<i. \<not> P (tv_versions tv ! j)) \<and> P v \<and>
           getAll tv ! i = t \<and> map_of (tv_map tv) v = Some t \<and>
           map_of d (sv_major v, sv_minor v) = Some (data t) \<and>
           (isLatest t \<longleftrightarrow> v = hd (tv_versions tv))"
proof -
  let ?vs = "tv_versions tv" and ?es = "tv_map tv"
  have vs: "?vs = sortedKeys d" and es: "mapEntries d (sortedKeys d) 0 = Inr ?es"
    using TypingsVersions_new_Inr [OF tv] by simp_all
  have fst_es: "map fst ?es = ?vs" using es vs by (simp add: mapEntries_fst)
  from f obtain i where i: "i < length ?vs" "P (?vs ! i)" "v = ?vs ! i" "\<forall>j<i. \<not> P (?vs ! j)"
    unfolding find_Some_iff by blast
  have len: "length ?es = length ?vs" using fst_es by (metis length_map)
  have nth: "\<And>j. j < length ?vs \<Longrightarrow> fst (?es ! j) = ?vs ! j"
    using fst_es len by (metis nth_map)
  have "\<forall>j<i. fst (?es ! j) \<noteq> fst (?es ! i)"
  proof (intro allI impI)
    fix j assume j: "j < i"
    then have "\<not> P (?vs ! j)" using i(4) by simp
    moreover have "fst (?es ! j) = ?vs ! j" using j i(1) by (simp add: nth)
    moreover have "fst (?es ! i) = ?vs ! i" using i(1) by (simp add: nth)
    ultimately show "fst (?es ! j) \<noteq> fst (?es ! i)" using i(2) by auto
  qed
  moreover have "i < length ?es" using i(1) len by simp
  ultimately have "map_of ?es (fst (?es ! i)) = Some (snd (?es ! i))"
    by (rule map_of_first_index [rotated])
  then have m: "map_of ?es v = Some (snd (?es ! i))"
    using i(1) i(3) by (simp add: nth)
  have "v \<in> set (sortedKeys d)" using i(1) i(3) vs by (metis nth_mem)
  from mapEntries_lookup [OF es this] obtain t where
    t: "map_of ?es v = Some t" "map_of d (sv_major v, sv_minor v) = Some (data t)"
       "isLatest t \<longleftrightarrow> 0 = (0::nat) \<and> v = hd (sortedKeys d)"
    by blast
  have g: "getAll tv ! i = snd (?es ! i)"
    using i(1) len by (simp add: getAll_def)
  from t m g i vs show ?thesis by auto
qed

lemma find_built_None:
  assumes tv: "TypingsVersions_new d = Inr tv"
  shows "find P (tv_versions tv) = None \<longleftrightarrow> (\<forall>k \<in> fst ` set d. \<not> P (keyVersion k))"
  using TypingsVersions_new_Inr(1) [OF tv]
  by (simp add: find_None_iff set_sortedKeys)

lemma versionMatches_keyVersion:
  "versionMatches v (keyVersion k) \<longleftrightarrow>
     fst k = dv_major v \<and> (dv_minor v = None \<or> dv_minor v = Some (snd k))"
  by (auto simp: versionMatches_def keyVersion_fields)

lemma get_of_tryGetLatestMatch:
  "tryGetLatestMatch tv v = Some t \<Longrightarrow>
     tryGet tv (Dir v) = Some t \<and> get tv (Dir v) e = Inr (Some t)"
  by (simp add: tryGet_def get_def getLatestMatch_def)

lemma get_of_tryGetLatestMatch_None:
  "tryGetLatestMatch tv v = None \<Longrightarrow>
     tryGet tv (Dir v) = None \<and> get tv (Dir v) e = Inl (CouldNotFindVersion (dv_major v) (dv_minor v) e)"
  by (simp add: tryGet_def get_def getLatestMatch_def)

lemma built_exact:
  assumes tv: "TypingsVersions_new d = Inr tv" and r: "map_of d (M, m) = Some r"
  shows "\<exists>t. data t = r \<and> tryGetLatestMatch tv \<lparr>dv_major = M, dv_minor = Some m\<rparr> = Some t"
proof -
  let ?ver = "\<lparr>dv_major = M, dv_minor = Some m\<rparr>"
  from r have "(M, m) \<in> fst ` set d" by (metis domI dom_map_of_conv_image_fst)
  moreover have "versionMatches ?ver (keyVersion (M, m))"
    by (simp add: versionMatches_keyVersion)
  ultimately have "find (versionMatches ?ver) (tv_versions tv) \<noteq> None"
    unfolding find_built_None [OF tv] by blast
  then obtain v where f: "find (versionMatches ?ver) (tv_versions tv) = Some v" by auto
  from find_built [OF tv f] obtain t where
    t: "versionMatches ?ver v" "map_of (tv_map tv) v = Some t"
       "map_of d (sv_major v, sv_minor v) = Some (data t)"
    by blast
  from t(1) have "(sv_major v, sv_minor v) = (M, m)" by (simp add: versionMatches_def)
  with t(3) r have "data t = r" by simp
  moreover have "tryGetLatestMatch tv ?ver = Some t"
    using f t(2) by (simp add: tryGetLatestMatch_def)
  ultimately show ?thesis by blast
qed

lemma built_major:
  assumes tv: "TypingsVersions_new d = Inr tv" and r: "map_of d (M, m) = Some r"
    and mx: "\<forall>m'. (M, m') \<in> fst ` set d \<longrightarrow> m' \<le> m"
  shows "\<exists>i t. i < length (tv_versions tv) \<and> tv_versions tv ! i = keyVersion (M, m) \<and>
           (\<forall>j<i. sv_major (tv_versions tv ! j) \<noteq> M) \<and>
           getAll tv ! i = t \<and> data t = r \<and>
           tryGetLatestMatch tv \<lparr>dv_major = M, dv_minor = None\<rparr> = Some t"
proof -
  let ?ver = "\<lparr>dv_major = M, dv_minor = None\<rparr>"
  have vs: "tv_versions tv = sortedKeys d" using TypingsVersions_new_Inr(1) [OF tv] .
  from r have in_d: "(M, m) \<in> fst ` set d" by (metis domI dom_map_of_conv_image_fst)
  have match: "versionMatches ?ver (keyVersion (M, m))"
    by (simp add: versionMatches_keyVersion)
  from in_d match have "find (versionMatches ?ver) (tv_versions tv) \<noteq> None"
    unfolding find_built_None [OF tv] by blast
  then obtain v where f: "find (versionMatches ?ver) (tv_versions tv) = Some v" by auto
  from find_built [OF tv f] obtain i t where
    it: "i < length (tv_versions tv)" "tv_versions tv ! i = v"
        "\<forall>j<i. \<not> versionMatches ?ver (tv_versions tv ! j)" "versionMatches ?ver v"
        "getAll tv ! i = t" "map_of (tv_map tv) v = Some t"
        "map_of d (sv_major v, sv_minor v) = Some (data t)"
    by blast
  have "v \<in> set (sortedKeys d)" using it(1) it(2) vs by (metis nth_mem)
  then obtain k where k: "k \<in> fst ` set d" "v = keyVersion k"
    by (auto simp: set_sortedKeys)
  from it(4) k(2) have fk: "fst k = M" by (simp add: versionMatches_keyVersion)
  with k(1) mx have "snd k \<le> m" by (cases k) auto
  moreover have "keyVersion (M, m) \<in> set (tv_versions tv)"
    using in_d vs by (simp add: set_sortedKeys)
  with find_first_greatest
         [where vs = "sortedKeys d" and P = "versionMatches ?ver" and v = v, OF sorted_sortedKeys]
       f vs match
  have "key3 (keyVersion (M, m)) \<le> key3 v" by simp
  then have "(M, m) \<le> k" using k(2) by (simp add: key3_keyVersion)
  with fk have "m \<le> snd k" by (cases k) auto
  ultimately have "k = (M, m)" using fk by (cases k) auto
  with k(2) have v: "v = keyVersion (M, m)" by simp
  with it(7) r have "data t = r" by (simp add: keyVersion_fields)
  moreover have "tryGetLatestMatch tv ?ver = Some t"
    using f it(6) by (simp add: tryGetLatestMatch_def)
  moreover have "\<forall>j<i. sv_major (tv_versions tv ! j) \<noteq> M"
    using it(3) by (simp add: versionMatches_def)
  ultimately show ?thesis using it(1) it(2) it(5) v by blast
qed

lemma built_no_match:
  assumes tv: "TypingsVersions_new d = Inr tv"
    and no: "\<forall>k \<in> fst ` set d. \<not> (fst k = dv_major v \<and> (dv_minor v = None \<or> dv_minor v = Some (snd k)))"
  shows "tryGetLatestMatch tv v = None"
proof -
  have "find (versionMatches v) (tv_versions tv) = None"
    unfolding find_built_None [OF tv] using no by (simp add: versionMatches_keyVersion)
  then show ?thesis by (simp add: tryGetLatestMatch_def)
qed

lemma built_match:
  assumes tv: "TypingsVersions_new d = Inr tv"
    and k: "k \<in> fst ` set d" "fst k = dv_major v" "dv_minor v = None \<or> dv_minor v = Some (snd k)"
  shows "\<exists>t. tryGetLatestMatch tv v = Some t"
proof -
  have "versionMatches v (keyVersion k)" using k(2,3) by (simp add: versionMatches_keyVersion)
  with k(1) have "find (versionMatches v) (tv_versions tv) \<noteq> None"
    unfolding find_built_None [OF tv] by blast
  then obtain w where f: "find (versionMatches v) (tv_versions tv) = Some w" by auto
  from find_built [OF tv f] obtain t where "map_of (tv_map tv) w = Some t" by blast
  with f show ?thesis by (simp add: tryGetLatestMatch_def)
qed

lemma built_latest:
  assumes tv: "TypingsVersions_new d = Inr tv"
  shows "d = [] \<Longrightarrow> getLatest tv = None"
    and "d \<noteq> [] \<Longrightarrow> \<exists>k t. k \<in> fst ` set d \<and> (\<forall>k' \<in> fst ` set d. k' \<le> k) \<and>
           tv_versions tv ! 0 = keyVersion k \<and> map_of d k = Some (data t) \<and> isLatest t \<and>
           getAll tv ! 0 = t \<and> getLatest tv = Some t"
proof -
  have vs: "tv_versions tv = sortedKeys d" using TypingsVersions_new_Inr(1) [OF tv] .
  show "d = [] \<Longrightarrow> getLatest tv = None"
    using vs length_sortedKeys [of d] by (simp add: getLatest_def)
  assume ne: "d \<noteq> []"
  then have nev: "tv_versions tv \<noteq> []" using vs length_sortedKeys [of d] by auto
  then obtain v rest where vr: "tv_versions tv = v # rest" by (cases "tv_versions tv") auto
  from hd_sortedKeys_max [OF ne] obtain k where
    k0: "k \<in> fst ` set d" "hd (sortedKeys d) = keyVersion k" "\<forall>k' \<in> fst ` set d. k' \<le> k"
    by blast
  have "hd (sortedKeys d) = v" using vs vr by (metis list.sel(1))
  with k0 have k: "k \<in> fst ` set d" "v = keyVersion k" "\<forall>k' \<in> fst ` set d. k' \<le> k"
    by simp_all
  have f: "find (\<lambda>_. True) (tv_versions tv) = Some v" using vr by simp
  from find_built [OF tv f] obtain i t where
    it: "i < length (tv_versions tv)" "\<forall>j<i. \<not> True" "getAll tv ! i = t"
        "map_of (tv_map tv) v = Some t" "map_of d (sv_major v, sv_minor v) = Some (data t)"
        "isLatest t \<longleftrightarrow> v = hd (tv_versions tv)"
    by blast
  from it(2) have "i = 0" by (cases i) auto
  moreover have "map_of d k = Some (data t)" using it(5) k(2) by (simp add: keyVersion_fields)
  moreover have "isLatest t" using it(6) vr by simp
  moreover have "getLatest tv = Some t" using vr it(4) by (simp add: getLatest_def)
  ultimately show "\<exists>k t. k \<in> fst ` set d \<and> (\<forall>k' \<in> fst ` set d. k' \<le> k) \<and>
           tv_versions tv ! 0 = keyVersion k \<and> map_of d k = Some (data t) \<and> isLatest t \<and>
           getAll tv ! 0 = t \<and> getLatest tv = Some t"
    using k it(3) vr by auto
qed

lemma built_latest_unique:
  assumes tv: "TypingsVersions_new d = Inr tv" and ne: "d \<noteq> []"
  shows "\<exists>t ts. getAll tv = t # ts \<and> isLatest t \<and> (\<forall>u \<in> set ts. \<not> isLatest u)"
proof -
  have es: "mapEntries d (sortedKeys d) 0 = Inr (tv_map tv)"
    using TypingsVersions_new_Inr(2) [OF tv] .
  from ne have "sortedKeys d \<noteq> []" using length_sortedKeys [of d] by auto
  then obtain v rest where vr: "sortedKeys d = v # rest" by (cases "sortedKeys d") auto
  from es obtain t0 es' where
    t0: "TypingsData_new (map_of d (sv_major v, sv_minor v)) (0 = (0::nat)) = Inr t0"
    and es': "mapEntries d rest (Suc 0) = Inr es'" and eq: "tv_map tv = (v, t0) # es'"
    unfolding vr by (auto split: sum.splits)
  from t0 have "isLatest t0" by (auto simp: TypingsData_new_def split: option.splits)
  moreover have "\<forall>u \<in> set (map snd es'). \<not> isLatest u"
    using mapEntries_not_latest [OF es'] by auto
  moreover have "getAll tv = t0 # map snd es'" using eq by (simp add: getAll_def)
  ultimately show ?thesis by blast
qed

text \<open>
  C1. The constructor always succeeds and leaves the versions sorted newest first. For
  a requested major \<open>M\<close> with unspecified minor, when \<open>(M, m)\<close> is the stored key with the
  highest minor among the keys of major \<open>M\<close>, \<^verbatim>\<open>tryGet\<close> and \<^verbatim>\<open>get\<close> return the record stored
  under \<open>(M, m)\<close>, which is the record at the first position of the sorted order whose key
  has major \<open>M\<close>. For a requested \<open>(M, m)\<close> with the minor specified, they return the record
  stored under exactly that key whenever there is one. (Major and minor are those of the
  key under which a record is stored.)
\<close>

theorem get_first_match_in_sorted_order:
  "\<exists>tv. TypingsVersions_new d = Inr tv \<and>
     sorted_wrt (\<lambda>a b. (sv_major b, sv_minor b) \<le> (sv_major a, sv_minor a)) (tv_versions tv) \<and>
     (map_of d (M, m) = Some r \<and> (\<forall>m'. (M, m') \<in> fst ` set d \<longrightarrow> m' \<le> m) \<longrightarrow>
        (\<exists>i t. i < length (tv_versions tv) \<and> tv_versions tv ! i = keyVersion (M, m) \<and>
               (\<forall>j<i. sv_major (tv_versions tv ! j) \<noteq> M) \<and>
               getAll tv ! i = t \<and> data t = r \<and>
               tryGet tv (Dir \<lparr>dv_major = M, dv_minor = None\<rparr>) = Some t \<and>
               get tv (Dir \<lparr>dv_major = M, dv_minor = None\<rparr>) e = Inr (Some t))) \<and>
     (map_of d (M, m) = Some r \<longrightarrow>
        (\<exists>t. data t = r \<and>
             tryGet tv (Dir \<lparr>dv_major = M, dv_minor = Some m\<rparr>) = Some t \<and>
             get tv (Dir \<lparr>dv_major = M, dv_minor = Some m\<rparr>) e = Inr (Some t)))"
proof -
  obtain tv where tv: "TypingsVersions_new d = Inr tv"
    using TypingsVersions_new_total [of d] by blast
  have s: "sorted_wrt (\<lambda>a b. (sv_major b, sv_minor b) \<le> (sv_major a, sv_minor a)) (tv_versions tv)"
    using sorted_pairs_sortedKeys [of d] TypingsVersions_new_Inr(1) [OF tv] by simp
  have a: "map_of d (M, m) = Some r \<and> (\<forall>m'. (M, m') \<in> fst ` set d \<longrightarrow> m' \<le> m) \<longrightarrow>
        (\<exists>i t. i < length (tv_versions tv) \<and> tv_versions tv ! i = keyVersion (M, m) \<and>
               (\<forall>j<i. sv_major (tv_versions tv ! j) \<noteq> M) \<and>
               getAll tv ! i = t \<and> data t = r \<and>
               tryGet tv (Dir \<lparr>dv_major = M, dv_minor = None\<rparr>) = Some t \<and>
               get tv (Dir \<lparr>dv_major = M, dv_minor = None\<rparr>) e = Inr (Some t))"
  proof
    assume h: "map_of d (M, m) = Some r \<and> (\<forall>m'. (M, m') \<in> fst ` set d \<longrightarrow> m' \<le> m)"
    then have r: "map_of d (M, m) = Some r"
      and mx: "\<forall>m'. (M, m') \<in> fst ` set d \<longrightarrow> m' \<le> m" by simp_all
    from built_major [OF tv r mx] obtain i t where
      it: "i < length (tv_versions tv)" "tv_versions tv ! i = keyVersion (M, m)"
          "\<forall>j<i. sv_major (tv_versions tv ! j) \<noteq> M" "getAll tv ! i = t" "data t = r"
          "tryGetLatestMatch tv \<lparr>dv_major = M, dv_minor = None\<rparr> = Some t"
      by blast
    from get_of_tryGetLatestMatch [OF it(6), of e] it
    show "\<exists>i t. i < length (tv_versions tv) \<and> tv_versions tv ! i = keyVersion (M, m) \<and>
               (\<forall>j<i. sv_major (tv_versions tv ! j) \<noteq> M) \<and>
               getAll tv ! i = t \<and> data t = r \<and>
               tryGet tv (Dir \<lparr>dv_major = M, dv_minor = None\<rparr>) = Some t \<and>
               get tv (Dir \<lparr>dv_major = M, dv_minor = None\<rparr>) e = Inr (Some t)"
      by blast
  qed
  have b: "map_of d (M, m) = Some r \<longrightarrow>
        (\<exists>t. data t = r \<and>
             tryGet tv (Dir \<lparr>dv_major = M, dv_minor = Some m\<rparr>) = Some t \<and>
             get tv (Dir \<lparr>dv_major = M, dv_minor = Some m\<rparr>) e = Inr (Some t))"
  proof
    assume r: "map_of d (M, m) = Some r"
    from built_exact [OF tv r] obtain t where
      t: "data t = r" "tryGetLatestMatch tv \<lparr>dv_major = M, dv_minor = Some m\<rparr> = Some t"
      by blast
    from get_of_tryGetLatestMatch [OF t(2), of e] t(1)
    show "\<exists>t. data t = r \<and>
             tryGet tv (Dir \<lparr>dv_major = M, dv_minor = Some m\<rparr>) = Some t \<and>
             get tv (Dir \<lparr>dv_major = M, dv_minor = Some m\<rparr>) e = Inr (Some t)"
      by blast
  qed
  from tv s a b show ?thesis by blast
qed

theorem get_first_match_in_sorted_order_witness:
  "(\<exists>t. data t = exampleRaw ''foo'' 2 3 \<and>
        tryGet exampleVersions (Dir \<lparr>dv_major = 2, dv_minor = None\<rparr>) = Some t \<and>
        get exampleVersions (Dir \<lparr>dv_major = 2, dv_minor = None\<rparr>) None = Inr (Some t)) \<and>
   (\<exists>t. data t = exampleRaw ''foo'' 2 2 \<and>
        tryGet exampleVersions (Dir \<lparr>dv_major = 2, dv_minor = Some 1\<rparr>) = Some t \<and>
        get exampleVersions (Dir \<lparr>dv_major = 2, dv_minor = Some 1\<rparr>) None = Inr (Some t))"
proof -
  have k: "fst ` set exampleVersionsRaw = {(1, 0), (2, 3), (2, 1)}"
    by (simp add: exampleVersionsRaw_def)
  have r1: "map_of exampleVersionsRaw (2, 3) = Some (exampleRaw ''foo'' 2 3)"
    by (simp add: exampleVersionsRaw_def)
  have mx: "\<forall>m'. (2, m') \<in> fst ` set exampleVersionsRaw \<longrightarrow> m' \<le> 3"
    unfolding k by simp
  have r2: "map_of exampleVersionsRaw (2, 1) = Some (exampleRaw ''foo'' 2 2)"
    by (simp add: exampleVersionsRaw_def)
  from get_first_match_in_sorted_order [of exampleVersionsRaw 2 3 "exampleRaw ''foo'' 2 3" None]
  have a: "\<exists>t. data t = exampleRaw ''foo'' 2 3 \<and>
        tryGet exampleVersions (Dir \<lparr>dv_major = 2, dv_minor = None\<rparr>) = Some t \<and>
        get exampleVersions (Dir \<lparr>dv_major = 2, dv_minor = None\<rparr>) None = Inr (Some t)"
    unfolding exampleVersions_built using r1 mx by blast
  from get_first_match_in_sorted_order [of exampleVersionsRaw 2 1 "exampleRaw ''foo'' 2 2" None]
  have b: "\<exists>t. data t = exampleRaw ''foo'' 2 2 \<and>
        tryGet exampleVersions (Dir \<lparr>dv_major = 2, dv_minor = Some 1\<rparr>) = Some t \<and>
        get exampleVersions (Dir \<lparr>dv_major = 2, dv_minor = Some 1\<rparr>) None = Inr (Some t)"
    unfolding exampleVersions_built using r2 by blast
  from a b show ?thesis by (rule conjI)
qed

text \<open>
  C2. A version set built from a non-empty raw mapping has exactly one record with
  \<^verbatim>\<open>isLatest = true\<close>; it is the record at index 0 of the newest-to-oldest order, it is
  the record stored under the lexicographically greatest key \<open>(major, minor)\<close>, and
  \<^verbatim>\<open>getLatest()\<close> returns it.
\<close>

theorem latest_is_first_and_greatest:
  assumes "d \<noteq> []"
  shows "\<exists>tv. TypingsVersions_new d = Inr tv \<and>
     length (filter isLatest (getAll tv)) = 1 \<and>
     (\<forall>i < length (getAll tv). isLatest (getAll tv ! i) \<longleftrightarrow> i = 0) \<and>
     getLatest tv = Some (getAll tv ! 0) \<and>
     (\<exists>k. k \<in> fst ` set d \<and> (\<forall>k' \<in> fst ` set d. k' \<le> k) \<and>
          tv_versions tv ! 0 = keyVersion k \<and> map_of d k = Some (data (getAll tv ! 0)))"
proof -
  obtain tv where tv: "TypingsVersions_new d = Inr tv"
    using TypingsVersions_new_total [of d] by blast
  from built_latest_unique [OF tv assms] obtain t ts where
    g: "getAll tv = t # ts" and t: "isLatest t" and ts: "\<forall>u \<in> set ts. \<not> isLatest u"
    by blast
  from ts have f0: "filter isLatest ts = []" by (simp add: filter_empty_conv)
  have one: "length (filter isLatest (getAll tv)) = 1"
    unfolding g using t f0 by simp
  have idx: "\<forall>i < length (getAll tv). isLatest (getAll tv ! i) \<longleftrightarrow> i = 0"
  proof (intro allI impI)
    fix i assume i: "i < length (getAll tv)"
    show "isLatest (getAll tv ! i) \<longleftrightarrow> i = 0"
    proof (cases i)
      case 0
      then show ?thesis using g t by simp
    next
      case (Suc n)
      then have "n < length ts" using i g by simp
      then have "ts ! n \<in> set ts" by (rule nth_mem)
      with ts have "\<not> isLatest (ts ! n)" by blast
      with Suc g show ?thesis by simp
    qed
  qed
  from built_latest(2) [OF tv assms] obtain k u where
    k: "k \<in> fst ` set d" "\<forall>k' \<in> fst ` set d. k' \<le> k" "tv_versions tv ! 0 = keyVersion k"
       "map_of d k = Some (data u)" "getAll tv ! 0 = u" "getLatest tv = Some u"
    by blast
  have l: "getLatest tv = Some (getAll tv ! 0)" using k(5,6) by simp
  have "\<exists>k. k \<in> fst ` set d \<and> (\<forall>k' \<in> fst ` set d. k' \<le> k) \<and>
          tv_versions tv ! 0 = keyVersion k \<and> map_of d k = Some (data (getAll tv ! 0))"
    using k by blast
  with tv one idx l show ?thesis by blast
qed

theorem latest_is_first_and_greatest_witness:
  "length (filter isLatest (getAll exampleVersions)) = 1 \<and>
   getLatest exampleVersions = Some (getAll exampleVersions ! 0) \<and>
   (\<exists>k. k \<in> fst ` set exampleVersionsRaw \<and> (\<forall>k' \<in> fst ` set exampleVersionsRaw. k' \<le> k) \<and>
        tv_versions exampleVersions ! 0 = keyVersion k \<and>
        map_of exampleVersionsRaw k = Some (data (getAll exampleVersions ! 0)))"
proof -
  have ne: "exampleVersionsRaw \<noteq> []" by (simp add: exampleVersionsRaw_def)
  from latest_is_first_and_greatest [OF ne] show ?thesis
    unfolding exampleVersions_built by blast
qed


section \<open>Resolution through the registry\<close>

lemma resolve_of_tryGet:
  assumes vs: "map_of (ap_data ap) (getMangledNameForScopedPackage (pid_name dep)) = Some tv"
    and t: "tryGet tv (pid_version dep) = Some t"
  shows "resolve ap dep = Inr (TypingsData_id t)"
    and "tryResolve ap dep = asPackageId (TypingsData_id t)"
proof -
  show "tryResolve ap dep = asPackageId (TypingsData_id t)"
    using vs t by (simp add: tryResolve_def)
  have "get tv (pid_version dep) None = Inr (Some t)"
    using t
    by (cases "pid_version dep")
       (auto simp: get_def tryGet_def getLatestMatch_def split: option.splits)
  then show "resolve ap dep = Inr (TypingsData_id t)"
    using vs by (simp add: resolve_def)
qed

lemma tryResolve_of_None:
  assumes vs: "map_of (ap_data ap) (getMangledNameForScopedPackage (pid_name dep)) = Some tv"
    and t: "tryGet tv (pid_version dep) = None"
  shows "tryResolve ap dep = dep"
  using vs t by (simp add: tryResolve_def)

lemma tryGet_built_None:
  assumes tv: "TypingsVersions_new d = Inr tv"
    and no: "\<forall>k \<in> fst ` set d. \<not> spec_matches ver k"
  shows "tryGet tv ver = None"
proof (cases ver)
  case Star
  have "d = []"
  proof (rule ccontr)
    assume "d \<noteq> []"
    then obtain x where "x \<in> set d" by (cases d) auto
    then have "fst x \<in> fst ` set d" by (rule imageI)
    with no have "\<not> spec_matches ver (fst x)" by (rule bspec)
    with Star show False by (simp add: spec_matches_def)
  qed
  with built_latest(1) [OF tv] Star show ?thesis by (simp add: tryGet_def)
next
  case (Dir v)
  with no have "\<forall>k \<in> fst ` set d.
      \<not> (fst k = dv_major v \<and> (dv_minor v = None \<or> dv_minor v = Some (snd k)))"
    by (simp add: spec_matches_def)
  from built_no_match [OF tv this] Dir show ?thesis by (simp add: tryGet_def)
qed

lemma tryGet_built_Some:
  assumes tv: "TypingsVersions_new d = Inr tv"
    and k: "k \<in> fst ` set d" "spec_matches ver k"
  shows "\<exists>t. tryGet tv ver = Some t"
proof (cases ver)
  case Star
  from k(1) have "d \<noteq> []" by auto
  from built_latest(2) [OF tv this] obtain t where "getLatest tv = Some t" by blast
  with Star show ?thesis by (simp add: tryGet_def)
next
  case (Dir v)
  with k(2) have "fst k = dv_major v" "dv_minor v = None \<or> dv_minor v = Some (snd k)"
    by (simp_all add: spec_matches_def)
  from built_match [OF tv k(1) this] Dir show ?thesis by (simp add: tryGet_def)
qed

text \<open>
  C3. \<^verbatim>\<open>tryResolve\<close> returns a package id for every registry and every id (it has no
  failing path). It returns the given id unchanged when the mangled name has no version
  set, and when the version set has no record for the requested version; for a version
  set built by the constructor that is the case exactly when no stored key satisfies the
  request. Otherwise it returns the id of the matched record, with that record's definite
  version.
\<close>

theorem tryResolve_never_fails:
  "(map_of (ap_data ap) (getMangledNameForScopedPackage (pid_name dep)) = None
      \<longrightarrow> tryResolve ap dep = dep) \<and>
   (map_of (ap_data ap) (getMangledNameForScopedPackage (pid_name dep)) = Some tv \<longrightarrow>
      (tryGet tv (pid_version dep) = None \<longrightarrow> tryResolve ap dep = dep) \<and>
      (\<forall>t. tryGet tv (pid_version dep) = Some t \<longrightarrow>
         tryResolve ap dep =
           \<lparr>pid_name = typingsPackageName (data t),
            pid_version = Dir \<lparr>dv_major = libraryMajorVersion (data t),
                               dv_minor = Some (libraryMinorVersion (data t))\<rparr>\<rparr>)) \<and>
   (map_of (ap_data ap) (getMangledNameForScopedPackage (pid_name dep)) = Some tv \<and>
    TypingsVersions_new d = Inr tv \<longrightarrow>
      ((\<forall>k \<in> fst ` set d. \<not> spec_matches (pid_version dep) k) \<longrightarrow> tryResolve ap dep = dep) \<and>
      ((\<exists>k \<in> fst ` set d. spec_matches (pid_version dep) k) \<longrightarrow>
         (\<exists>t. tryGet tv (pid_version dep) = Some t \<and>
              tryResolve ap dep = asPackageId (TypingsData_id t))))"
proof (intro conjI impI allI)
  assume "map_of (ap_data ap) (getMangledNameForScopedPackage (pid_name dep)) = None"
  then show "tryResolve ap dep = dep" by (simp add: tryResolve_def)
next
  assume "map_of (ap_data ap) (getMangledNameForScopedPackage (pid_name dep)) = Some tv"
    and "tryGet tv (pid_version dep) = None"
  then show "tryResolve ap dep = dep" by (rule tryResolve_of_None)
next
  fix t
  assume "map_of (ap_data ap) (getMangledNameForScopedPackage (pid_name dep)) = Some tv"
    and "tryGet tv (pid_version dep) = Some t"
  then have "tryResolve ap dep = asPackageId (TypingsData_id t)" by (rule resolve_of_tryGet(2))
  then show "tryResolve ap dep =
           \<lparr>pid_name = typingsPackageName (data t),
            pid_version = Dir \<lparr>dv_major = libraryMajorVersion (data t),
                               dv_minor = Some (libraryMinorVersion (data t))\<rparr>\<rparr>"
    by (simp add: asPackageId_def TypingsData_id_def TypingsData_name_def
        TypingsData_major_def TypingsData_minor_def)
next
  assume h: "map_of (ap_data ap) (getMangledNameForScopedPackage (pid_name dep)) = Some tv \<and>
    TypingsVersions_new d = Inr tv"
    and no: "\<forall>k \<in> fst ` set d. \<not> spec_matches (pid_version dep) k"
  from h have vs: "map_of (ap_data ap) (getMangledNameForScopedPackage (pid_name dep)) = Some tv"
    and tv: "TypingsVersions_new d = Inr tv" by simp_all
  from tryGet_built_None [OF tv no] have "tryGet tv (pid_version dep) = None" .
  with vs show "tryResolve ap dep = dep" by (rule tryResolve_of_None)
next
  assume h: "map_of (ap_data ap) (getMangledNameForScopedPackage (pid_name dep)) = Some tv \<and>
    TypingsVersions_new d = Inr tv"
    and ex: "\<exists>k \<in> fst ` set d. spec_matches (pid_version dep) k"
  from h have vs: "map_of (ap_data ap) (getMangledNameForScopedPackage (pid_name dep)) = Some tv"
    and tv: "TypingsVersions_new d = Inr tv" by simp_all
  from ex obtain k where k: "k \<in> fst ` set d" "spec_matches (pid_version dep) k" by blast
  from tryGet_built_Some [OF tv k] obtain t where t: "tryGet tv (pid_version dep) = Some t"
    by blast
  from resolve_of_tryGet(2) [OF vs t] t
  show "\<exists>t. tryGet tv (pid_version dep) = Some t \<and>
              tryResolve ap dep = asPackageId (TypingsData_id t)"
    by blast
qed

lemma example_lookup:
  "map_of (ap_data exampleRegistry) (getMangledNameForScopedPackage ''foo'') = Some exampleVersions"
  "map_of (ap_data exampleRegistry) (getMangledNameForScopedPackage ''ext'') = None"
  by (simp_all add: mangle_example exampleRegistry_def)

lemma example_tryGet:
  "tryGet exampleVersions (Dir \<lparr>dv_major = 2, dv_minor = Some 1\<rparr>)
     = Some \<lparr>data = exampleRaw ''foo'' 2 2, isLatest = False\<rparr>"
  "tryGet exampleVersions (Dir \<lparr>dv_major = 3, dv_minor = None\<rparr>) = None"
  by (simp_all add: tryGet_def tryGetLatestMatch_def versionMatches_def exampleVersions_def)

theorem tryResolve_never_fails_witness:
  "tryResolve exampleRegistry \<lparr>pid_name = ''ext'', pid_version = Star\<rparr>
     = \<lparr>pid_name = ''ext'', pid_version = Star\<rparr> \<and>
   tryResolve exampleRegistry
       \<lparr>pid_name = ''foo'', pid_version = Dir \<lparr>dv_major = 3, dv_minor = None\<rparr>\<rparr>
     = \<lparr>pid_name = ''foo'', pid_version = Dir \<lparr>dv_major = 3, dv_minor = None\<rparr>\<rparr> \<and>
   tryResolve exampleRegistry
       \<lparr>pid_name = ''foo'', pid_version = Dir \<lparr>dv_major = 2, dv_minor = Some 1\<rparr>\<rparr>
     = \<lparr>pid_name = ''foo'', pid_version = Dir \<lparr>dv_major = 2, dv_minor = Some 2\<rparr>\<rparr>"
proof -
  have a: "tryResolve exampleRegistry \<lparr>pid_name = ''ext'', pid_version = Star\<rparr>
     = \<lparr>pid_name = ''ext'', pid_version = Star\<rparr>"
    using tryResolve_never_fails
      [of exampleRegistry "\<lparr>pid_name = ''ext'', pid_version = Star\<rparr>" exampleVersions
          exampleVersionsRaw]
    by (simp add: example_lookup)
  have b: "tryResolve exampleRegistry
       \<lparr>pid_name = ''foo'', pid_version = Dir \<lparr>dv_major = 3, dv_minor = None\<rparr>\<rparr>
     = \<lparr>pid_name = ''foo'', pid_version = Dir \<lparr>dv_major = 3, dv_minor = None\<rparr>\<rparr>"
    using tryResolve_never_fails
      [of exampleRegistry
          "\<lparr>pid_name = ''foo'', pid_version = Dir \<lparr>dv_major = 3, dv_minor = None\<rparr>\<rparr>"
          exampleVersions exampleVersionsRaw]
    by (simp add: example_lookup example_tryGet)
  have c: "tryResolve exampleRegistry
       \<lparr>pid_name = ''foo'', pid_version = Dir \<lparr>dv_major = 2, dv_minor = Some 1\<rparr>\<rparr>
     = \<lparr>pid_name = ''foo'', pid_version = Dir \<lparr>dv_major = 2, dv_minor = Some 2\<rparr>\<rparr>"
    using tryResolve_never_fails
      [of exampleRegistry
          "\<lparr>pid_name = ''foo'', pid_version = Dir \<lparr>dv_major = 2, dv_minor = Some 1\<rparr>\<rparr>"
          exampleVersions exampleVersionsRaw]
      example_lookup example_tryGet
    by (simp add: exampleRaw_def)
  from a b c show ?thesis by (intro conjI)
qed

lemma tryGet_built_key:
  assumes tv: "TypingsVersions_new d = Inr tv" and t: "tryGet tv ver = Some t"
  shows "\<exists>k \<in> fst ` set d. spec_matches ver k \<and> map_of d k = Some (data t)"
proof (cases ver)
  case Star
  with t have g: "getLatest tv = Some t" by (simp add: tryGet_def)
  have "d \<noteq> []"
  proof
    assume "d = []"
    from built_latest(1) [OF tv this] g show False by simp
  qed
  from built_latest(2) [OF tv this] obtain k u where
    k: "k \<in> fst ` set d" "map_of d k = Some (data u)" "getLatest tv = Some u"
    by blast
  from k(3) g have "u = t" by simp
  with k Star show ?thesis by (auto simp: spec_matches_def)
next
  case (Dir v)
  with t have m: "tryGetLatestMatch tv v = Some t" by (simp add: tryGet_def)
  then obtain w where f: "find (versionMatches v) (tv_versions tv) = Some w"
    by (cases "find (versionMatches v) (tv_versions tv)") (simp_all add: tryGetLatestMatch_def)
  from find_built [OF tv f] obtain i u where
    u: "i < length (tv_versions tv)" "tv_versions tv ! i = w" "versionMatches v w"
       "map_of (tv_map tv) w = Some u" "map_of d (sv_major w, sv_minor w) = Some (data u)"
    by blast
  from m f u(4) have "u = t" by (simp add: tryGetLatestMatch_def)
  have "w \<in> set (sortedKeys d)"
    using u(1,2) TypingsVersions_new_Inr(1) [OF tv] by (metis nth_mem)
  then obtain k where k: "k \<in> fst ` set d" "w = keyVersion k"
    by (auto simp: set_sortedKeys)
  from u(3) k(2) have "spec_matches (Dir v) k"
    by (simp add: spec_matches_def versionMatches_keyVersion)
  moreover from u(5) k(2) \<open>u = t\<close> have "map_of d k = Some (data t)"
    by (simp add: keyVersion_fields)
  ultimately show ?thesis using k(1) Dir by blast
qed

text \<open>
  C10. When the requested version matches a record, \<^verbatim>\<open>resolve\<close> and \<^verbatim>\<open>tryResolve\<close> return
  an id whose name is the record's package name and whose version is the pair
  \<open>(libraryMajorVersion, libraryMinorVersion)\<close> parsed from the record's header, not the
  key under which the record is stored. For a version set built by the constructor: a
  request \<open>(M, m)\<close> that names a stored key gives, from both functions, the header version
  of the record stored under that key, which equals \<open>(M, m)\<close> only when the header agrees
  with the key; and every request that some stored key satisfies gives, from both
  functions, the name and header version of a record stored under a key that satisfies
  the request.
\<close>

theorem resolve_returns_header_version:
  "(map_of (ap_data ap) (getMangledNameForScopedPackage (pid_name dep)) = Some tv \<and>
    tryGet tv (pid_version dep) = Some t \<longrightarrow>
      resolve ap dep =
        Inr \<lparr>pidv_name = typingsPackageName (data t),
             pidv_version = \<lparr>hv_major = libraryMajorVersion (data t),
                             hv_minor = libraryMinorVersion (data t)\<rparr>\<rparr> \<and>
      tryResolve ap dep =
        \<lparr>pid_name = typingsPackageName (data t),
         pid_version = Dir \<lparr>dv_major = libraryMajorVersion (data t),
                            dv_minor = Some (libraryMinorVersion (data t))\<rparr>\<rparr>) \<and>
   (map_of (ap_data ap) (getMangledNameForScopedPackage name) = Some tv \<and>
    TypingsVersions_new d = Inr tv \<and> map_of d (M, m) = Some r \<longrightarrow>
      resolve ap \<lparr>pid_name = name, pid_version = Dir \<lparr>dv_major = M, dv_minor = Some m\<rparr>\<rparr> =
        Inr \<lparr>pidv_name = typingsPackageName r,
             pidv_version = \<lparr>hv_major = libraryMajorVersion r,
                             hv_minor = libraryMinorVersion r\<rparr>\<rparr> \<and>
      tryResolve ap \<lparr>pid_name = name, pid_version = Dir \<lparr>dv_major = M, dv_minor = Some m\<rparr>\<rparr> =
        \<lparr>pid_name = typingsPackageName r,
         pid_version = Dir \<lparr>dv_major = libraryMajorVersion r,
                            dv_minor = Some (libraryMinorVersion r)\<rparr>\<rparr> \<and>
      (\<forall>res. resolve ap \<lparr>pid_name = name, pid_version = Dir \<lparr>dv_major = M, dv_minor = Some m\<rparr>\<rparr>
               = Inr res \<longrightarrow>
         (pidv_version res = \<lparr>hv_major = M, hv_minor = m\<rparr>
            \<longleftrightarrow> libraryMajorVersion r = M \<and> libraryMinorVersion r = m)) \<and>
      (pid_version
         (tryResolve ap \<lparr>pid_name = name, pid_version = Dir \<lparr>dv_major = M, dv_minor = Some m\<rparr>\<rparr>)
         = Dir \<lparr>dv_major = M, dv_minor = Some m\<rparr>
            \<longleftrightarrow> libraryMajorVersion r = M \<and> libraryMinorVersion r = m)) \<and>
   (map_of (ap_data ap) (getMangledNameForScopedPackage (pid_name dep)) = Some tv \<and>
    TypingsVersions_new d = Inr tv \<and>
    (\<exists>k \<in> fst ` set d. spec_matches (pid_version dep) k) \<longrightarrow>
      (\<exists>k r. k \<in> fst ` set d \<and> spec_matches (pid_version dep) k \<and> map_of d k = Some r \<and>
         resolve ap dep =
           Inr \<lparr>pidv_name = typingsPackageName r,
                pidv_version = \<lparr>hv_major = libraryMajorVersion r,
                                hv_minor = libraryMinorVersion r\<rparr>\<rparr> \<and>
         tryResolve ap dep =
           \<lparr>pid_name = typingsPackageName r,
            pid_version = Dir \<lparr>dv_major = libraryMajorVersion r,
                               dv_minor = Some (libraryMinorVersion r)\<rparr>\<rparr>))"
proof -
  have ids: "\<And>t. TypingsData_id t =
      \<lparr>pidv_name = typingsPackageName (data t),
       pidv_version = \<lparr>hv_major = libraryMajorVersion (data t),
                       hv_minor = libraryMinorVersion (data t)\<rparr>\<rparr>"
    by (simp add: TypingsData_id_def TypingsData_name_def
        TypingsData_major_def TypingsData_minor_def)
  have idp: "\<And>t. asPackageId (TypingsData_id t) =
      \<lparr>pid_name = typingsPackageName (data t),
       pid_version = Dir \<lparr>dv_major = libraryMajorVersion (data t),
                          dv_minor = Some (libraryMinorVersion (data t))\<rparr>\<rparr>"
    by (simp add: asPackageId_def ids)
  have c1: "map_of (ap_data ap) (getMangledNameForScopedPackage (pid_name dep)) = Some tv \<and>
    tryGet tv (pid_version dep) = Some t \<longrightarrow>
      resolve ap dep =
        Inr \<lparr>pidv_name = typingsPackageName (data t),
             pidv_version = \<lparr>hv_major = libraryMajorVersion (data t),
                             hv_minor = libraryMinorVersion (data t)\<rparr>\<rparr> \<and>
      tryResolve ap dep =
        \<lparr>pid_name = typingsPackageName (data t),
         pid_version = Dir \<lparr>dv_major = libraryMajorVersion (data t),
                            dv_minor = Some (libraryMinorVersion (data t))\<rparr>\<rparr>"
  proof
    assume h: "map_of (ap_data ap) (getMangledNameForScopedPackage (pid_name dep)) = Some tv \<and>
      tryGet tv (pid_version dep) = Some t"
    then have vs: "map_of (ap_data ap) (getMangledNameForScopedPackage (pid_name dep)) = Some tv"
      and t: "tryGet tv (pid_version dep) = Some t" by simp_all
    from resolve_of_tryGet [OF vs t]
    show "resolve ap dep =
        Inr \<lparr>pidv_name = typingsPackageName (data t),
             pidv_version = \<lparr>hv_major = libraryMajorVersion (data t),
                             hv_minor = libraryMinorVersion (data t)\<rparr>\<rparr> \<and>
      tryResolve ap dep =
        \<lparr>pid_name = typingsPackageName (data t),
         pid_version = Dir \<lparr>dv_major = libraryMajorVersion (data t),
                            dv_minor = Some (libraryMinorVersion (data t))\<rparr>\<rparr>"
      by (simp add: ids asPackageId_def)
  qed
  let ?dep = "\<lparr>pid_name = name, pid_version = Dir \<lparr>dv_major = M, dv_minor = Some m\<rparr>\<rparr>"
  have c2: "map_of (ap_data ap) (getMangledNameForScopedPackage name) = Some tv \<and>
    TypingsVersions_new d = Inr tv \<and> map_of d (M, m) = Some r \<longrightarrow>
      resolve ap ?dep =
        Inr \<lparr>pidv_name = typingsPackageName r,
             pidv_version = \<lparr>hv_major = libraryMajorVersion r,
                             hv_minor = libraryMinorVersion r\<rparr>\<rparr> \<and>
      tryResolve ap ?dep =
        \<lparr>pid_name = typingsPackageName r,
         pid_version = Dir \<lparr>dv_major = libraryMajorVersion r,
                            dv_minor = Some (libraryMinorVersion r)\<rparr>\<rparr> \<and>
      (\<forall>res. resolve ap ?dep = Inr res \<longrightarrow>
         (pidv_version res = \<lparr>hv_major = M, hv_minor = m\<rparr>
            \<longleftrightarrow> libraryMajorVersion r = M \<and> libraryMinorVersion r = m)) \<and>
      (pid_version (tryResolve ap ?dep) = Dir \<lparr>dv_major = M, dv_minor = Some m\<rparr>
            \<longleftrightarrow> libraryMajorVersion r = M \<and> libraryMinorVersion r = m)"
  proof
    assume h: "map_of (ap_data ap) (getMangledNameForScopedPackage name) = Some tv \<and>
      TypingsVersions_new d = Inr tv \<and> map_of d (M, m) = Some r"
    then have vs: "map_of (ap_data ap) (getMangledNameForScopedPackage (pid_name ?dep)) = Some tv"
      and tv: "TypingsVersions_new d = Inr tv" and r: "map_of d (M, m) = Some r" by simp_all
    from built_exact [OF tv r] obtain t where
      t: "data t = r" "tryGetLatestMatch tv \<lparr>dv_major = M, dv_minor = Some m\<rparr> = Some t"
      by blast
    from t(2) have g: "tryGet tv (pid_version ?dep) = Some t" by (simp add: tryGet_def)
    have res: "resolve ap ?dep =
        Inr \<lparr>pidv_name = typingsPackageName r,
             pidv_version = \<lparr>hv_major = libraryMajorVersion r,
                             hv_minor = libraryMinorVersion r\<rparr>\<rparr>"
      using resolve_of_tryGet(1) [OF vs g] t(1) by (simp add: ids)
    have tres: "tryResolve ap ?dep =
        \<lparr>pid_name = typingsPackageName r,
         pid_version = Dir \<lparr>dv_major = libraryMajorVersion r,
                            dv_minor = Some (libraryMinorVersion r)\<rparr>\<rparr>"
      using resolve_of_tryGet(2) [OF vs g] t(1) by (simp add: ids asPackageId_def)
    have e1: "\<forall>res. resolve ap ?dep = Inr res \<longrightarrow>
         (pidv_version res = \<lparr>hv_major = M, hv_minor = m\<rparr>
            \<longleftrightarrow> libraryMajorVersion r = M \<and> libraryMinorVersion r = m)"
      unfolding res by simp
    have e2: "pid_version (tryResolve ap ?dep) = Dir \<lparr>dv_major = M, dv_minor = Some m\<rparr>
            \<longleftrightarrow> libraryMajorVersion r = M \<and> libraryMinorVersion r = m"
      unfolding tres by simp
    from res tres e1 e2
    show "resolve ap ?dep =
        Inr \<lparr>pidv_name = typingsPackageName r,
             pidv_version = \<lparr>hv_major = libraryMajorVersion r,
                             hv_minor = libraryMinorVersion r\<rparr>\<rparr> \<and>
      tryResolve ap ?dep =
        \<lparr>pid_name = typingsPackageName r,
         pid_version = Dir \<lparr>dv_major = libraryMajorVersion r,
                            dv_minor = Some (libraryMinorVersion r)\<rparr>\<rparr> \<and>
      (\<forall>res. resolve ap ?dep = Inr res \<longrightarrow>
         (pidv_version res = \<lparr>hv_major = M, hv_minor = m\<rparr>
            \<longleftrightarrow> libraryMajorVersion r = M \<and> libraryMinorVersion r = m)) \<and>
      (pid_version (tryResolve ap ?dep) = Dir \<lparr>dv_major = M, dv_minor = Some m\<rparr>
            \<longleftrightarrow> libraryMajorVersion r = M \<and> libraryMinorVersion r = m)"
      by (intro conjI)
  qed
  have c3: "map_of (ap_data ap) (getMangledNameForScopedPackage (pid_name dep)) = Some tv \<and>
    TypingsVersions_new d = Inr tv \<and>
    (\<exists>k \<in> fst ` set d. spec_matches (pid_version dep) k) \<longrightarrow>
      (\<exists>k r. k \<in> fst ` set d \<and> spec_matches (pid_version dep) k \<and> map_of d k = Some r \<and>
         resolve ap dep =
           Inr \<lparr>pidv_name = typingsPackageName r,
                pidv_version = \<lparr>hv_major = libraryMajorVersion r,
                                hv_minor = libraryMinorVersion r\<rparr>\<rparr> \<and>
         tryResolve ap dep =
           \<lparr>pid_name = typingsPackageName r,
            pid_version = Dir \<lparr>dv_major = libraryMajorVersion r,
                               dv_minor = Some (libraryMinorVersion r)\<rparr>\<rparr>)"
  proof
    assume h: "map_of (ap_data ap) (getMangledNameForScopedPackage (pid_name dep)) = Some tv \<and>
      TypingsVersions_new d = Inr tv \<and>
      (\<exists>k \<in> fst ` set d. spec_matches (pid_version dep) k)"
    then have vs: "map_of (ap_data ap) (getMangledNameForScopedPackage (pid_name dep)) = Some tv"
      and tv: "TypingsVersions_new d = Inr tv" by simp_all
    from h obtain k0 where k0: "k0 \<in> fst ` set d" "spec_matches (pid_version dep) k0" by blast
    from tryGet_built_Some [OF tv k0] obtain t where t: "tryGet tv (pid_version dep) = Some t"
      by blast
    from tryGet_built_key [OF tv t] obtain k where
      k: "k \<in> fst ` set d" "spec_matches (pid_version dep) k" "map_of d k = Some (data t)"
      by blast
    have "resolve ap dep =
           Inr \<lparr>pidv_name = typingsPackageName (data t),
                pidv_version = \<lparr>hv_major = libraryMajorVersion (data t),
                                hv_minor = libraryMinorVersion (data t)\<rparr>\<rparr>"
      using resolve_of_tryGet(1) [OF vs t] by (simp add: ids)
    moreover have "tryResolve ap dep =
           \<lparr>pid_name = typingsPackageName (data t),
            pid_version = Dir \<lparr>dv_major = libraryMajorVersion (data t),
                               dv_minor = Some (libraryMinorVersion (data t))\<rparr>\<rparr>"
      using resolve_of_tryGet(2) [OF vs t] by (simp add: ids asPackageId_def)
    ultimately show "\<exists>k r. k \<in> fst ` set d \<and> spec_matches (pid_version dep) k \<and>
         map_of d k = Some r \<and>
         resolve ap dep =
           Inr \<lparr>pidv_name = typingsPackageName r,
                pidv_version = \<lparr>hv_major = libraryMajorVersion r,
                                hv_minor = libraryMinorVersion r\<rparr>\<rparr> \<and>
         tryResolve ap dep =
           \<lparr>pid_name = typingsPackageName r,
            pid_version = Dir \<lparr>dv_major = libraryMajorVersion r,
                               dv_minor = Some (libraryMinorVersion r)\<rparr>\<rparr>"
      using k by blast
  qed
  from c1 c2 c3 show ?thesis by (intro conjI)
qed

theorem resolve_returns_header_version_witness:
  "resolve exampleRegistry
       \<lparr>pid_name = ''foo'', pid_version = Dir \<lparr>dv_major = 2, dv_minor = Some 1\<rparr>\<rparr>
     = Inr \<lparr>pidv_name = ''foo'', pidv_version = \<lparr>hv_major = 2, hv_minor = 2\<rparr>\<rparr> \<and>
   tryResolve exampleRegistry
       \<lparr>pid_name = ''foo'', pid_version = Dir \<lparr>dv_major = 2, dv_minor = Some 1\<rparr>\<rparr>
     = \<lparr>pid_name = ''foo'', pid_version = Dir \<lparr>dv_major = 2, dv_minor = Some 2\<rparr>\<rparr>"
proof -
  have r: "map_of exampleVersionsRaw (2, 1) = Some (exampleRaw ''foo'' 2 2)"
    by (simp add: exampleVersionsRaw_def)
  have h: "map_of (ap_data exampleRegistry) (getMangledNameForScopedPackage ''foo'')
             = Some exampleVersions \<and>
           TypingsVersions_new exampleVersionsRaw = Inr exampleVersions \<and>
           map_of exampleVersionsRaw (2, 1) = Some (exampleRaw ''foo'' 2 2)"
    using example_lookup(1) exampleVersions_built r by (intro conjI)
  from resolve_returns_header_version
    [where ap = exampleRegistry and name = "''foo''" and tv = exampleVersions
       and d = exampleVersionsRaw and M = 2 and m = 1 and r = "exampleRaw ''foo'' 2 2",
     THEN conjunct2, THEN conjunct1, rule_format, OF h]
  show ?thesis by (simp add: exampleRaw_def)
qed


end
